theory Spec2Isabelle
  imports Main "HOL-Library.AList" "HOL-Library.Multiset" "HOL-Library.Char_ord"
    "HOL-Library.List_Lexorder" "HOL-Library.Monad_Syntax"
begin

section \<open>The document model\<close>

text \<open>
  The merger works on the document tree of the kin-openapi library (package
  \<^verbatim>\<open>openapi3\<close>). The structs are modelled with the fields the merger reads or writes.

  Schema references (\<^verbatim>\<open>*openapi3.SchemaRef\<close>) and schemas (\<^verbatim>\<open>*openapi3.Schema\<close>) are
  objects of a store: the loader resolves a \<^verbatim>\<open>$ref\<close> by pointing the reference's
  \<^verbatim>\<open>Value\<close> at the schema of the component it names, so one schema object is reachable
  along several routes, and along a route that returns to itself when schemas are
  recursive. A nil pointer is \<open>None\<close>. The objects above the schemas (path items,
  operations, parameters, responses, ...) are values.

  A Go map is handed to a loop as the list of its entries in the order the iteration
  happens to take; the keys of such a list are distinct. Go leaves that order open, so
  every statement below holds for each order.
\<close>

type_synonym addr = nat

record SchemaRef =
  sr_Ref :: string
  sr_Value :: "addr option"

record Schema =
  s_Type :: "string list option"
  s_Format :: string
  s_Description :: string
  s_Items :: "addr option"
  s_Properties :: "(string \<times> addr option) list"
  s_AdditionalProperties :: "addr option"
  s_AllOf :: "addr option list"
  s_OneOf :: "addr option list"
  s_AnyOf :: "addr option list"
  s_Not :: "addr option"

text \<open>
  The store gives the object at each address; a pointer is nil or an address, and there
  are no dangling pointers. \<open>nextAddr\<close> is the first address not yet handed out.
\<close>

record heap =
  schemaRefs :: "addr \<Rightarrow> SchemaRef"
  schemas :: "addr \<Rightarrow> Schema"
  nextAddr :: addr

record Parameter =
  p_Name :: string
  p_In :: string
  p_Description :: string
  p_Required :: bool
  p_Deprecated :: bool
  p_AllowEmptyValue :: bool
  p_Schema :: "addr option"

record ParameterRef =
  pr_Ref :: string
  pr_Value :: "Parameter option"

record MediaType =
  mt_Schema :: "addr option"

record RequestBody =
  rb_Content :: "(string \<times> MediaType) list"

record RequestBodyRef =
  rbr_Ref :: string
  rbr_Value :: "RequestBody option"

record Header =
  h_Schema :: "addr option"

record HeaderRef =
  hr_Ref :: string
  hr_Value :: "Header option"

record Response =
  rs_Content :: "(string \<times> MediaType) list"
  rs_Headers :: "(string \<times> HeaderRef) list"

record ResponseRef =
  rr_Ref :: string
  rr_Value :: "Response option"

text \<open>
  A callback holds path items, whose operations hold callbacks: the three types are
  mutually recursive.
\<close>

datatype Operation = Operation
    (op_Tags: "string list")
    (op_Parameters: "ParameterRef list")
    (op_RequestBody: "RequestBodyRef option")
    (op_Responses: "(string \<times> ResponseRef) list")
    (op_Callbacks: "(string \<times> CallbackRef) list")
  and CallbackRef = CallbackRef
    (cb_Ref: string)
    (cb_Value: "(string \<times> PathItem option) list option")
  and PathItem = PathItem
    (pi_Get: "Operation option")
    (pi_Post: "Operation option")
    (pi_Put: "Operation option")
    (pi_Delete: "Operation option")
    (pi_Patch: "Operation option")
    (pi_Head: "Operation option")
    (pi_Options: "Operation option")
    (pi_Trace: "Operation option")
    (pi_Parameters: "ParameterRef list")

type_synonym Paths = "(string \<times> PathItem option) list"


text \<open>
  Security schemes, examples and links are carried along and never looked into: each is
  its serialised content.
\<close>

datatype SecuritySchemeRef = SecuritySchemeRef string
datatype ExampleRef = ExampleRef string
datatype LinkRef = LinkRef string

record Components =
  c_Schemas :: "(string \<times> addr option) list"
  c_Parameters :: "(string \<times> ParameterRef) list"
  c_Headers :: "(string \<times> HeaderRef) list"
  c_RequestBodies :: "(string \<times> RequestBodyRef) list"
  c_Responses :: "(string \<times> ResponseRef) list"
  c_SecuritySchemes :: "(string \<times> SecuritySchemeRef) list"
  c_Examples :: "(string \<times> ExampleRef) list"
  c_Links :: "(string \<times> LinkRef) list"
  c_Callbacks :: "(string \<times> CallbackRef) list"

record Tag =
  tag_Name :: string
  tag_Description :: string

text \<open>\<^verbatim>\<open>openapi3.T\<close>: the \<^verbatim>\<open>Paths\<close> and \<^verbatim>\<open>Components\<close> pointers may be nil.\<close>

record T =
  t_Paths :: "Paths option"
  t_Components :: "Components option"
  t_Tags :: "Tag list"

section \<open>The configuration\<close>

record DisputeConfig =
  d_Prefix :: string

record PathModificationConfig =
  pm_StripStart :: string
  pm_Prepend :: string

record PathFilter =
  pf_Path :: string
  pf_Method :: string

record OperationSelectionConfig =
  sel_IncludeTags :: "string list"
  sel_ExcludeTags :: "string list"
  sel_IncludePaths :: "PathFilter list"
  sel_ExcludePaths :: "PathFilter list"

record ParamFilter =
  xf_Name :: string
  xf_In :: string

text \<open>
  The \<^verbatim>\<open>Schema\<close> of a configured parameter is an \<^verbatim>\<open>interface{}\<close>: a map from strings
  to further values, a string, or something else.
\<close>

datatype Any = AnyMap "(string \<times> Any) list" | AnyString string | AnyOther

record ParameterConfig =
  pc_Name :: string
  pc_In :: string
  pc_Description :: string
  pc_Required :: bool
  pc_Deprecated :: bool
  pc_AllowEmptyValue :: bool
  pc_Schema :: "Any option"

record InputConfig =
  in_Dispute :: "DisputeConfig option"
  in_PathModification :: "PathModificationConfig option"
  in_OperationSelection :: "OperationSelectionConfig option"
  in_IncludeExtraParameters :: "ParameterConfig list"
  in_ExcludeParameters :: "ParamFilter list"

section \<open>Strings and maps of the Go library\<close>

text \<open>\<^verbatim>\<open>strings.HasPrefix\<close> and \<^verbatim>\<open>strings.TrimPrefix\<close> compare bytes.\<close>

definition HasPrefix :: "string \<Rightarrow> string \<Rightarrow> bool" where
  "HasPrefix s pre = (take (length pre) s = pre)"

definition TrimPrefix :: "string \<Rightarrow> string \<Rightarrow> string" where
  "TrimPrefix s pre = (if HasPrefix s pre then drop (length pre) s else s)"

text \<open>
  \<^verbatim>\<open>Paths.Set\<close> stores a value under a key, replacing what the key held;
  \<^verbatim>\<open>Paths.Delete\<close> removes a key.
\<close>

definition Set_path :: "string \<Rightarrow> PathItem option \<Rightarrow> Paths \<Rightarrow> Paths" where
  "Set_path key pathItem paths = AList.update key pathItem paths"

definition Delete_path :: "string \<Rightarrow> Paths \<Rightarrow> Paths" where
  "Delete_path key paths = AList.delete key paths"


section \<open>The path rewriter\<close>

text \<open>The body of the loop of \<^verbatim>\<open>modifyPaths\<close>: the new key of one path.\<close>

definition rewritePath :: "PathModificationConfig \<Rightarrow> string \<Rightarrow> string" where
  "rewritePath pm path =
     (let newPath = path;
          newPath = (if pm_StripStart pm \<noteq> [] \<and> HasPrefix newPath (pm_StripStart pm)
                     then TrimPrefix newPath (pm_StripStart pm) else newPath);
          newPath = (if pm_Prepend pm \<noteq> [] then pm_Prepend pm @ newPath else newPath);
          newPath = (if \<not> HasPrefix newPath ''/'' then ''/'' @ newPath else newPath)
      in newPath)"

definition modifyPaths :: "T \<Rightarrow> InputConfig \<Rightarrow> T" where
  "modifyPaths spec input =
     (case in_PathModification input of
        None \<Rightarrow> spec
      | Some pm \<Rightarrow>
          (case t_Paths spec of
             None \<Rightarrow> spec
           | Some paths \<Rightarrow>
               spec\<lparr>t_Paths :=
                 Some (fold (\<lambda>(path, pathItem) newPaths.
                               Set_path (rewritePath pm path) pathItem newPaths)
                         paths [])\<rparr>))"

text \<open>
  The rewriting as the specification words it: strip \<open>stripStart\<close> from the front if the
  path begins with it, prepend \<open>prepend\<close>, insert a leading slash if there is none.
\<close>

definition spec_rewritePath :: "string \<Rightarrow> string \<Rightarrow> string \<Rightarrow> string" where
  "spec_rewritePath stripStart prepend path =
     (let stripped = (if HasPrefix path stripStart
                      then drop (length stripStart) path else path);
          prepended = prepend @ stripped
      in if HasPrefix prepended ''/'' then prepended else CHR ''/'' # prepended)"


section \<open>The operation filter\<close>

text \<open>
  \<^verbatim>\<open>strings.ToUpper\<close> as it acts on ASCII strings: \<^verbatim>\<open>removeOperation\<close> is its only caller,
  and the method names it is given are the eight upper-case names of \<^verbatim>\<open>getOperationsMap\<close>.
\<close>

definition upperChar :: "char \<Rightarrow> char" where
  "upperChar c =
     (if CHR ''a'' \<le> c \<and> c \<le> CHR ''z'' then char_of (of_char c - (32 :: nat)) else c)"

definition ToUpper :: "string \<Rightarrow> string" where
  "ToUpper s = map upperChar s"

definition getOperationsMap :: "PathItem \<Rightarrow> (string \<times> Operation option) list" where
  "getOperationsMap pathItem =
     [(''GET'', pi_Get pathItem),
      (''POST'', pi_Post pathItem),
      (''PUT'', pi_Put pathItem),
      (''DELETE'', pi_Delete pathItem),
      (''PATCH'', pi_Patch pathItem),
      (''HEAD'', pi_Head pathItem),
      (''OPTIONS'', pi_Options pathItem),
      (''TRACE'', pi_Trace pathItem)]"

fun removeOperation :: "PathItem \<Rightarrow> string \<Rightarrow> PathItem" where
  "removeOperation (PathItem get post put del patch head opts trace params) method =
     (let m = ToUpper method in
      if m = ''GET'' then PathItem None post put del patch head opts trace params
      else if m = ''POST'' then PathItem get None put del patch head opts trace params
      else if m = ''PUT'' then PathItem get post None del patch head opts trace params
      else if m = ''DELETE'' then PathItem get post put None patch head opts trace params
      else if m = ''PATCH'' then PathItem get post put del None head opts trace params
      else if m = ''HEAD'' then PathItem get post put del patch None opts trace params
      else if m = ''OPTIONS'' then PathItem get post put del patch head None trace params
      else if m = ''TRACE'' then PathItem get post put del patch head opts None params
      else PathItem get post put del patch head opts trace params)"

definition isPathItemEmpty :: "PathItem \<Rightarrow> bool" where
  "isPathItemEmpty pathItem =
     (pi_Get pathItem = None \<and>
      pi_Post pathItem = None \<and>
      pi_Put pathItem = None \<and>
      pi_Delete pathItem = None \<and>
      pi_Patch pathItem = None \<and>
      pi_Head pathItem = None \<and>
      pi_Options pathItem = None \<and>
      pi_Trace pathItem = None)"

text \<open>
  Two library functions are not part of the repository and are parameters of the filter:
  \<open>Compile\<close> stands for \<^verbatim>\<open>glob.Compile\<close>, giving the matcher of a pattern or \<open>None\<close> for an
  invalid pattern, and \<open>EqualFold\<close> for \<^verbatim>\<open>strings.EqualFold\<close>, the comparison of two strings
  under Unicode case folding.
\<close>

type_synonym glob = "string \<Rightarrow> (string \<Rightarrow> bool) option"

record library =
  Compile :: glob
  EqualFold :: "string \<Rightarrow> string \<Rightarrow> bool"

definition matchGlob :: "glob \<Rightarrow> string \<Rightarrow> string \<Rightarrow> bool" where
  "matchGlob compile pattern path =
     (if pattern = path then True
      else (case compile pattern of
              None \<Rightarrow> pattern = path
            | Some g \<Rightarrow> g path))"

definition matchPathFilter :: "library \<Rightarrow> string \<Rightarrow> string \<Rightarrow> PathFilter \<Rightarrow> bool" where
  "matchPathFilter lib path method flt =
     (if pf_Method flt \<noteq> [] \<and> \<not> EqualFold lib method (pf_Method flt) then False
      else matchGlob (Compile lib) (pf_Path flt) path)"

text \<open>A loop that sets a flag and breaks, or returns, at the first hit is \<open>list_ex\<close>.\<close>

definition shouldIncludeOperation ::
    "library \<Rightarrow> string \<Rightarrow> string \<Rightarrow> Operation \<Rightarrow> OperationSelectionConfig \<Rightarrow> bool" where
  "shouldIncludeOperation lib path method op sel =
     (if sel_IncludeTags sel \<noteq> [] \<and>
         \<not> list_ex (\<lambda>opTag. list_ex (\<lambda>includeTag. opTag = includeTag) (sel_IncludeTags sel))
             (op_Tags op)
      then False
      else if sel_ExcludeTags sel \<noteq> [] \<and>
         list_ex (\<lambda>opTag. list_ex (\<lambda>excludeTag. opTag = excludeTag) (sel_ExcludeTags sel))
           (op_Tags op)
      then False
      else if sel_IncludePaths sel \<noteq> [] \<and>
         \<not> list_ex (\<lambda>flt. matchPathFilter lib path method flt) (sel_IncludePaths sel)
      then False
      else if sel_ExcludePaths sel \<noteq> [] \<and>
         list_ex (\<lambda>flt. matchPathFilter lib path method flt) (sel_ExcludePaths sel)
      then False
      else True)"

text \<open>
  The inner loop of \<^verbatim>\<open>filterOperations\<close>: the operations are read once from the path
  item, and each one that fails the selection is removed from it. \<open>filterOperation\<close> is
  the body of the loop.
\<close>

definition filterOperation ::
    "library \<Rightarrow> OperationSelectionConfig \<Rightarrow> string \<Rightarrow> string \<times> Operation option \<Rightarrow> PathItem
      \<Rightarrow> PathItem" where
  "filterOperation lib sel path entry pathItem =
     (case snd entry of
        None \<Rightarrow> pathItem
      | Some op \<Rightarrow>
          if \<not> shouldIncludeOperation lib path (fst entry) op sel
          then removeOperation pathItem (fst entry) else pathItem)"

definition filterPathItem ::
    "library \<Rightarrow> OperationSelectionConfig \<Rightarrow> string \<Rightarrow> PathItem \<Rightarrow> PathItem" where
  "filterPathItem lib sel path pathItem =
     fold (filterOperation lib sel path) (getOperationsMap pathItem) pathItem"

text \<open>What that loop leaves of one operation: the operation if it is selected, else nil.\<close>

definition keepOperation ::
    "library \<Rightarrow> OperationSelectionConfig \<Rightarrow> string \<Rightarrow> string \<Rightarrow> Operation option
      \<Rightarrow> Operation option" where
  "keepOperation lib sel path method op =
     (case op of
        None \<Rightarrow> None
      | Some op \<Rightarrow> if shouldIncludeOperation lib path method op sel then Some op else None)"

text \<open>
  The outer loop: the path items are filtered in place and the keys of those left
  empty are collected in \<open>pathsToRemove\<close>; a nil path item is skipped.
\<close>

fun filterPaths ::
    "library \<Rightarrow> OperationSelectionConfig \<Rightarrow> Paths \<Rightarrow> string list \<Rightarrow> Paths \<times> string list" where
  "filterPaths lib sel [] pathsToRemove = ([], pathsToRemove)"
| "filterPaths lib sel ((path, None) # rest) pathsToRemove =
     (let (rest', pathsToRemove') = filterPaths lib sel rest pathsToRemove
      in ((path, None) # rest', pathsToRemove'))"
| "filterPaths lib sel ((path, Some pathItem) # rest) pathsToRemove =
     (let pathItem' = filterPathItem lib sel path pathItem;
          pathsToRemove1 = (if isPathItemEmpty pathItem'
                            then pathsToRemove @ [path] else pathsToRemove);
          (rest', pathsToRemove') = filterPaths lib sel rest pathsToRemove1
      in ((path, Some pathItem') # rest', pathsToRemove'))"

definition filterOperations :: "library \<Rightarrow> T \<Rightarrow> InputConfig \<Rightarrow> T" where
  "filterOperations lib spec input =
     (case in_OperationSelection input of
        None \<Rightarrow> spec
      | Some sel \<Rightarrow>
          (case t_Paths spec of
             None \<Rightarrow> spec
           | Some paths \<Rightarrow>
               (let (paths', pathsToRemove) = filterPaths lib sel paths []
                in spec\<lparr>t_Paths := Some (fold Delete_path pathsToRemove paths')\<rparr>)))"

text \<open>
  An entry of the path mapping that the filter leaves as it is: a nil path item, or one
  that loses no operation and is not empty.
\<close>

definition settled :: "library \<Rightarrow> OperationSelectionConfig \<Rightarrow> string \<times> PathItem option \<Rightarrow> bool" where
  "settled C sel e =
     (case snd e of
        None \<Rightarrow> True
      | Some pathItem \<Rightarrow> filterPathItem C sel (fst e) pathItem = pathItem \<and>
                        \<not> isPathItemEmpty pathItem)"

section \<open>The composite merger\<close>

text \<open>
  The composite is the \<^verbatim>\<open>master\<close> document of the merger. \<^verbatim>\<open>Merge\<close> creates it with a
  path mapping, a component bag whose maps are all made, and an empty tag list, and no
  stage sets any of them to nil.
\<close>

record Master =
  m_Paths :: Paths
  m_Components :: Components
  m_Tags :: "Tag list"

datatype error = SchemaCollision string | NilPointerDereference

text \<open>
  The body of the parameter loop of \<^verbatim>\<open>mergePathItem\<close>: \<open>param\<close> is appended unless an
  entry of the destination has the same name and location.
\<close>

definition mergeParameter :: "ParameterRef \<Rightarrow> ParameterRef list \<Rightarrow> ParameterRef list" where
  "mergeParameter param destParameters =
     (let exists = list_ex (\<lambda>existingParam.
            (case (pr_Value existingParam, pr_Value param) of
               (Some existingValue, Some paramValue) \<Rightarrow>
                 p_Name existingValue = p_Name paramValue \<and>
                 p_In existingValue = p_In paramValue
             | _ \<Rightarrow> False)) destParameters
      in if \<not> exists then destParameters @ [param] else destParameters)"

text \<open>The name and location of a parameter reference that has a value.\<close>

definition paramKey :: "ParameterRef \<Rightarrow> (string \<times> string) option" where
  "paramKey paramRef = map_option (\<lambda>v. (p_Name v, p_In v)) (pr_Value paramRef)"

fun mergePathItem :: "PathItem \<Rightarrow> PathItem \<Rightarrow> PathItem" where
  "mergePathItem (PathItem dGet dPost dPut dDelete dPatch dHead dOptions dTrace dParameters)
                 (PathItem sGet sPost sPut sDelete sPatch sHead sOptions sTrace sParameters) =
     PathItem
       (if sGet \<noteq> None \<and> dGet = None then sGet else dGet)
       (if sPost \<noteq> None \<and> dPost = None then sPost else dPost)
       (if sPut \<noteq> None \<and> dPut = None then sPut else dPut)
       (if sDelete \<noteq> None \<and> dDelete = None then sDelete else dDelete)
       (if sPatch \<noteq> None \<and> dPatch = None then sPatch else dPatch)
       (if sHead \<noteq> None \<and> dHead = None then sHead else dHead)
       (if sOptions \<noteq> None \<and> dOptions = None then sOptions else dOptions)
       (if sTrace \<noteq> None \<and> dTrace = None then sTrace else dTrace)
       (if sParameters \<noteq> [] then fold mergeParameter sParameters dParameters
        else dParameters)"

text \<open>
  Modelled from the spec: \<^verbatim>\<open>Paths.Find\<close> belongs to the kin-openapi library, which is
  not in the repository. The specification says "if the composite already has that
  path": the key is looked up, and a key that holds a nil path item counts as absent,
  as the merger's test \<^verbatim>\<open>existingPath != nil\<close> has it.
\<close>

definition Find :: "Paths \<Rightarrow> string \<Rightarrow> PathItem option" where
  "Find paths key = (case map_of paths key of Some (Some pathItem) \<Rightarrow> Some pathItem | _ \<Rightarrow> None)"

text \<open>
  The body of the path loop of \<^verbatim>\<open>mergeSpec\<close>. \<^verbatim>\<open>mergePathItem\<close> changes the composite's
  path item in place; it reads the fields of the incoming one, which panics when that
  one is nil.
\<close>

definition mergePath :: "string \<times> PathItem option \<Rightarrow> Paths \<Rightarrow> error + Paths" where
  "mergePath entry masterPaths =
     (case Find masterPaths (fst entry) of
        Some existingPath \<Rightarrow>
          (case snd entry of
             None \<Rightarrow> Inl NilPointerDereference
           | Some pathItem \<Rightarrow>
               Inr (Set_path (fst entry) (Some (mergePathItem existingPath pathItem))
                      masterPaths))
      | None \<Rightarrow> Inr (Set_path (fst entry) (snd entry) masterPaths))"

fun mergePaths :: "Paths \<Rightarrow> Paths \<Rightarrow> error + Paths" where
  "mergePaths [] masterPaths = Inr masterPaths"
| "mergePaths (entry # rest) masterPaths =
     (case mergePath entry masterPaths of
        Inl err \<Rightarrow> Inl err
      | Inr masterPaths' \<Rightarrow> mergePaths rest masterPaths')"

text \<open>
  \<^verbatim>\<open>json.Marshal\<close> is not part of the repository: \<open>Marshal h a\<close> stands for the bytes it
  gives for the schema reference at \<open>a\<close> in the store \<open>h\<close> (the empty string when it
  fails, since the merger drops the error).
\<close>

type_synonym marshal = "heap \<Rightarrow> addr \<Rightarrow> string"

definition schemasEqual :: "marshal \<Rightarrow> heap \<Rightarrow> addr option \<Rightarrow> addr option \<Rightarrow> bool" where
  "schemasEqual Marshal h a b =
     (case (a, b) of
        (None, None) \<Rightarrow> True
      | (None, Some _) \<Rightarrow> False
      | (Some _, None) \<Rightarrow> False
      | (Some a, Some b) \<Rightarrow>
          if sr_Ref (schemaRefs h a) \<noteq> [] \<and> sr_Ref (schemaRefs h b) \<noteq> []
          then sr_Ref (schemaRefs h a) = sr_Ref (schemaRefs h b)
          else Marshal h a = Marshal h b)"

text \<open>The body of the schema loop of \<^verbatim>\<open>mergeComponents\<close>.\<close>

definition mergeSchema ::
    "marshal \<Rightarrow> heap \<Rightarrow> bool \<Rightarrow> string \<times> addr option \<Rightarrow> (string \<times> addr option) list
      \<Rightarrow> error + (string \<times> addr option) list" where
  "mergeSchema Marshal h hasDisputePrefix entry masterSchemas =
     (case map_of masterSchemas (fst entry) of
        Some existing \<Rightarrow>
          if \<not> schemasEqual Marshal h existing (snd entry) \<and> \<not> hasDisputePrefix
          then Inl (SchemaCollision (fst entry))
          else Inr masterSchemas
      | None \<Rightarrow> Inr (AList.update (fst entry) (snd entry) masterSchemas))"

fun mergeSchemas ::
    "marshal \<Rightarrow> heap \<Rightarrow> bool \<Rightarrow> (string \<times> addr option) list \<Rightarrow> (string \<times> addr option) list
      \<Rightarrow> error + (string \<times> addr option) list" where
  "mergeSchemas Marshal h hasDisputePrefix [] masterSchemas = Inr masterSchemas"
| "mergeSchemas Marshal h hasDisputePrefix (entry # rest) masterSchemas =
     (case mergeSchema Marshal h hasDisputePrefix entry masterSchemas of
        Inl err \<Rightarrow> Inl err
      | Inr masterSchemas' \<Rightarrow> mergeSchemas Marshal h hasDisputePrefix rest masterSchemas')"

text \<open>A schema of the incoming list that collides with the composite.\<close>

definition collides ::
    "marshal \<Rightarrow> heap \<Rightarrow> (string \<times> addr option) list \<Rightarrow> (string \<times> addr option) list \<Rightarrow> string
      \<Rightarrow> bool" where
  "collides M h incoming masterSchemas name =
     (\<exists>s existing. (name, s) \<in> set incoming \<and> map_of masterSchemas name = Some existing \<and>
        \<not> schemasEqual M h existing s)"

text \<open>The loops of the other component kinds: the first writer of a name wins.\<close>

definition mergeFirstWins :: "(string \<times> 'v) list \<Rightarrow> (string \<times> 'v) list \<Rightarrow> (string \<times> 'v) list" where
  "mergeFirstWins incoming master =
     fold (\<lambda>(name, v) master.
             (case map_of master name of
                Some _ \<Rightarrow> master
              | None \<Rightarrow> AList.update name v master))
       incoming master"

definition hasDisputePrefix :: "InputConfig \<Rightarrow> bool" where
  "hasDisputePrefix input =
     (case in_Dispute input of None \<Rightarrow> False | Some dispute \<Rightarrow> d_Prefix dispute \<noteq> [])"

definition mergeComponents ::
    "marshal \<Rightarrow> heap \<Rightarrow> Components \<Rightarrow> InputConfig \<Rightarrow> Components \<Rightarrow> error + Components" where
  "mergeComponents Marshal h components input masterComponents =
     (case mergeSchemas Marshal h (hasDisputePrefix input) (c_Schemas components)
             (c_Schemas masterComponents) of
        Inl err \<Rightarrow> Inl err
      | Inr schemas' \<Rightarrow>
          Inr (masterComponents
            \<lparr>c_Schemas := schemas',
             c_Responses :=
               mergeFirstWins (c_Responses components) (c_Responses masterComponents),
             c_Parameters :=
               mergeFirstWins (c_Parameters components) (c_Parameters masterComponents),
             c_SecuritySchemes :=
               mergeFirstWins (c_SecuritySchemes components)
                 (c_SecuritySchemes masterComponents),
             c_RequestBodies :=
               mergeFirstWins (c_RequestBodies components) (c_RequestBodies masterComponents),
             c_Examples :=
               mergeFirstWins (c_Examples components) (c_Examples masterComponents),
             c_Headers :=
               mergeFirstWins (c_Headers components) (c_Headers masterComponents),
             c_Links := mergeFirstWins (c_Links components) (c_Links masterComponents),
             c_Callbacks :=
               mergeFirstWins (c_Callbacks components) (c_Callbacks masterComponents)\<rparr>))"

definition hasTag :: "Tag list \<Rightarrow> string \<Rightarrow> bool" where
  "hasTag masterTags name = list_ex (\<lambda>tag. tag_Name tag = name) masterTags"

definition mergeTags :: "Tag list \<Rightarrow> Tag list \<Rightarrow> Tag list" where
  "mergeTags tags masterTags =
     fold (\<lambda>tag masterTags.
             if \<not> hasTag masterTags (tag_Name tag) then masterTags @ [tag] else masterTags)
       tags masterTags"

definition mergeSpec :: "marshal \<Rightarrow> heap \<Rightarrow> T \<Rightarrow> InputConfig \<Rightarrow> Master \<Rightarrow> error + Master" where
  "mergeSpec Marshal h spec input master =
     (case (case t_Paths spec of
              None \<Rightarrow> Inr (m_Paths master)
            | Some paths \<Rightarrow> mergePaths paths (m_Paths master)) of
        Inl err \<Rightarrow> Inl err
      | Inr paths' \<Rightarrow>
          (case (case t_Components spec of
                   None \<Rightarrow> Inr (m_Components master)
                 | Some components \<Rightarrow>
                     mergeComponents Marshal h components input (m_Components master)) of
             Inl err \<Rightarrow> Inl err
           | Inr components' \<Rightarrow>
               Inr (master\<lparr>m_Paths := paths', m_Components := components',
                      m_Tags := mergeTags (t_Tags spec) (m_Tags master)\<rparr>)))"


section \<open>The parameter injector and remover\<close>

text \<open>A new object is put at the next free address of the store.\<close>

definition newSchema :: "Schema \<Rightarrow> heap \<Rightarrow> addr \<times> heap" where
  "newSchema s h =
     (nextAddr h, h\<lparr>schemas := (schemas h)(nextAddr h := s), nextAddr := Suc (nextAddr h)\<rparr>)"

definition newSchemaRef :: "SchemaRef \<Rightarrow> heap \<Rightarrow> addr \<times> heap" where
  "newSchemaRef r h =
     (nextAddr h, h\<lparr>schemaRefs := (schemaRefs h)(nextAddr h := r), nextAddr := Suc (nextAddr h)\<rparr>)"

text \<open>The zero value \<^verbatim>\<open>openapi3.Schema{}\<close>: no type, no constraint, no nested schema.\<close>

definition zeroSchema :: Schema where
  "zeroSchema = \<lparr>s_Type = None, s_Format = [], s_Description = [], s_Items = None,
     s_Properties = [], s_AdditionalProperties = None, s_AllOf = [], s_OneOf = [],
     s_AnyOf = [], s_Not = None\<rparr>"

text \<open>\<^verbatim>\<open>&openapi3.SchemaRef{Value: schemaVal}\<close> for a new schema \<open>schemaVal\<close>.\<close>

definition newSchemaRefTo :: "Schema \<Rightarrow> heap \<Rightarrow> addr \<times> heap" where
  "newSchemaRefTo schemaVal h =
     (let (v, h1) = newSchema schemaVal h
      in newSchemaRef \<lparr>sr_Ref = [], sr_Value = Some v\<rparr> h1)"

definition stringSchema :: Schema where
  "stringSchema = zeroSchema\<lparr>s_Type := Some [''string'']\<rparr>"

definition convertToSchemaRef :: "Any \<Rightarrow> heap \<Rightarrow> addr \<times> heap" where
  "convertToSchemaRef schema h =
     (case schema of
        AnyMap s \<Rightarrow>
          (let schemaVal = zeroSchema;
               schemaVal = (case map_of s ''type'' of
                              Some (AnyString typeVal) \<Rightarrow> schemaVal\<lparr>s_Type := Some [typeVal]\<rparr>
                            | _ \<Rightarrow> schemaVal);
               schemaVal = (case map_of s ''format'' of
                              Some (AnyString format) \<Rightarrow> schemaVal\<lparr>s_Format := format\<rparr>
                            | _ \<Rightarrow> schemaVal);
               schemaVal = (case map_of s ''description'' of
                              Some (AnyString desc) \<Rightarrow> schemaVal\<lparr>s_Description := desc\<rparr>
                            | _ \<Rightarrow> schemaVal)
           in newSchemaRefTo schemaVal h)
      | _ \<Rightarrow> newSchemaRefTo stringSchema h)"

definition ToOpenAPI3Parameter :: "ParameterConfig \<Rightarrow> heap \<Rightarrow> Parameter \<times> heap" where
  "ToOpenAPI3Parameter p h =
     (let (schema, h') = (case pc_Schema p of
                            Some s \<Rightarrow> convertToSchemaRef s h
                          | None \<Rightarrow> newSchemaRefTo stringSchema h)
      in (\<lparr>p_Name = pc_Name p, p_In = pc_In p, p_Description = pc_Description p,
           p_Required = pc_Required p, p_Deprecated = pc_Deprecated p,
           p_AllowEmptyValue = pc_AllowEmptyValue p, p_Schema = Some schema\<rparr>, h'))"

text \<open>
  The body of the injection loop of \<^verbatim>\<open>modifyParameters\<close>, on the parameter list of one
  operation: the parameter is built first, and appended unless an entry of the list has
  its name and location.
\<close>

definition sameNameIn :: "Parameter \<Rightarrow> ParameterRef \<Rightarrow> bool" where
  "sameNameIn param existingParam =
     (case pr_Value existingParam of
        None \<Rightarrow> False
      | Some existingValue \<Rightarrow>
          p_Name existingValue = p_Name param \<and> p_In existingValue = p_In param)"

definition injectParameter ::
    "ParameterConfig \<Rightarrow> ParameterRef list \<times> heap \<Rightarrow> ParameterRef list \<times> heap" where
  "injectParameter paramCfg state =
     (let (parameters, h) = state;
          (param, h') = ToOpenAPI3Parameter paramCfg h;
          exists = list_ex (sameNameIn param) parameters
      in if \<not> exists then (parameters @ [\<lparr>pr_Ref = [], pr_Value = Some param\<rparr>], h')
         else (parameters, h'))"

text \<open>The removal loop: a parameter reference without a value is kept.\<close>

definition excluded :: "ParamFilter list \<Rightarrow> Parameter \<Rightarrow> bool" where
  "excluded filters param =
     list_ex (\<lambda>flt. xf_Name flt = p_Name param \<and> (xf_In flt = [] \<or> xf_In flt = p_In param))
       filters"

definition removeExcluded :: "ParamFilter list \<Rightarrow> ParameterRef list \<Rightarrow> ParameterRef list" where
  "removeExcluded filters parameters =
     filter (\<lambda>paramRef.
               (case pr_Value paramRef of
                  None \<Rightarrow> True
                | Some param \<Rightarrow> \<not> excluded filters param))
       parameters"

text \<open>The two passes on one operation, which is nil or an operation.\<close>

fun modifyOperation :: "InputConfig \<Rightarrow> Operation option \<Rightarrow> heap \<Rightarrow> Operation option \<times> heap" where
  "modifyOperation input None h = (None, h)"
| "modifyOperation input (Some (Operation tags parameters requestBody responses callbacks)) h =
     (let (parameters1, h1) =
            (if in_IncludeExtraParameters input \<noteq> []
             then fold injectParameter (in_IncludeExtraParameters input) (parameters, h)
             else (parameters, h));
          parameters2 =
            (if in_ExcludeParameters input \<noteq> []
             then removeExcluded (in_ExcludeParameters input) parameters1
             else parameters1)
      in (Some (Operation tags parameters2 requestBody responses callbacks), h1))"

text \<open>The loop over the operations of one path item; a nil path item is skipped.\<close>

fun modifyPathItem :: "InputConfig \<Rightarrow> PathItem option \<Rightarrow> heap \<Rightarrow> PathItem option \<times> heap" where
  "modifyPathItem input None h = (None, h)"
| "modifyPathItem input (Some (PathItem get post put del patch head opts trace params)) h =
     (let (get', h) = modifyOperation input get h;
          (post', h) = modifyOperation input post h;
          (put', h) = modifyOperation input put h;
          (del', h) = modifyOperation input del h;
          (patch', h) = modifyOperation input patch h;
          (head', h) = modifyOperation input head h;
          (opts', h) = modifyOperation input opts h;
          (trace', h) = modifyOperation input trace h
      in (Some (PathItem get' post' put' del' patch' head' opts' trace' params), h))"

fun modifyPathItems :: "InputConfig \<Rightarrow> Paths \<Rightarrow> heap \<Rightarrow> Paths \<times> heap" where
  "modifyPathItems input [] h = ([], h)"
| "modifyPathItems input ((path, pathItem) # rest) h =
     (let (pathItem', h1) = modifyPathItem input pathItem h;
          (rest', h2) = modifyPathItems input rest h1
      in ((path, pathItem') # rest', h2))"

definition modifyParameters :: "T \<Rightarrow> InputConfig \<Rightarrow> heap \<Rightarrow> T \<times> heap" where
  "modifyParameters spec input h =
     (case t_Paths spec of
        None \<Rightarrow> (spec, h)
      | Some paths \<Rightarrow>
          (let (paths', h') = modifyPathItems input paths h
           in (spec\<lparr>t_Paths := Some paths'\<rparr>, h')))"


section \<open>The conflict resolver\<close>

text \<open>The rename map, a Go map from old to new reference strings.\<close>

type_synonym renames = "(string \<times> string) list"

text \<open>
  The renaming loop of one component kind: each component moves to the prefixed name, and
  the rename map gets the entry from the old to the new reference string. \<open>kind\<close> is the
  front of the reference strings of the kind, for example \<^verbatim>\<open>#/components/responses/\<close>.
\<close>

definition renameComponents ::
    "string \<Rightarrow> string \<Rightarrow> (string \<times> 'v) list \<Rightarrow> renames \<Rightarrow> (string \<times> 'v) list \<times> renames" where
  "renameComponents kind prefix components renames =
     fold (\<lambda>(name, v) (newComponents, renames).
             (let newName = prefix @ name
              in (AList.update newName v newComponents,
                  AList.update (kind @ name) (kind @ newName) renames)))
       components ([], renames)"

text \<open>The loop of the schemas, which also maps the legacy reference form.\<close>

definition renameSchemas ::
    "string \<Rightarrow> (string \<times> 'v) list \<Rightarrow> renames \<Rightarrow> (string \<times> 'v) list \<times> renames" where
  "renameSchemas prefix components renames =
     fold (\<lambda>(name, v) (newSchemas, renames).
             (let newName = prefix @ name;
                  renames = AList.update (''#/components/schemas/'' @ name)
                              (''#/components/schemas/'' @ newName) renames;
                  renames = AList.update (''#/definitions/'' @ name)
                              (''#/components/schemas/'' @ newName) renames
              in (AList.update newName v newSchemas, renames)))
       components ([], renames)"

text \<open>
  What every \<^verbatim>\<open>update...Refs\<close> function does to the reference string of its object: a
  non-empty string that is a key of the rename map is replaced by the map's value.
\<close>

definition rewriteRef :: "renames \<Rightarrow> string \<Rightarrow> string" where
  "rewriteRef renames ref =
     (if ref \<noteq> [] then (case map_of renames ref of Some newRef \<Rightarrow> newRef | None \<Rightarrow> ref)
      else ref)"

text \<open>
  The traversal of the schemas is recursive without any record of the objects it has
  seen, so it may not return. Its first argument bounds the depth of the recursion:
  the result is \<open>None\<close> when that depth does not suffice. The functions above it pass the
  bound on and return the object they changed together with the store.
\<close>

fun forEach :: "('a \<Rightarrow> heap \<Rightarrow> heap option) \<Rightarrow> 'a list \<Rightarrow> heap \<Rightarrow> heap option" where
  "forEach f [] h = Some h"
| "forEach f (x # xs) h = (case f x h of None \<Rightarrow> None | Some h' \<Rightarrow> forEach f xs h')"

text \<open>
  The second half of the body of \<^verbatim>\<open>updateSchemaRefRefs\<close>, on the schema that the
  reference points to; \<open>rec\<close> is the recursive call.
\<close>

definition updateNestedSchemas ::
    "(addr option \<Rightarrow> heap \<Rightarrow> heap option) \<Rightarrow> Schema \<Rightarrow> heap \<Rightarrow> heap option" where
  "updateNestedSchemas rec schema h =
     do {
       h \<leftarrow> (if s_Items schema \<noteq> None then rec (s_Items schema) h else Some h);
       h \<leftarrow> forEach rec (map snd (s_Properties schema)) h;
       h \<leftarrow> (if s_AdditionalProperties schema \<noteq> None
             then rec (s_AdditionalProperties schema) h else Some h);
       h \<leftarrow> forEach rec (s_AllOf schema) h;
       h \<leftarrow> forEach rec (s_OneOf schema) h;
       h \<leftarrow> forEach rec (s_AnyOf schema) h;
       (if s_Not schema \<noteq> None then rec (s_Not schema) h else Some h)
     }"

primrec updateSchemaRefRefs :: "nat \<Rightarrow> renames \<Rightarrow> addr option \<Rightarrow> heap \<Rightarrow> heap option" where
  "updateSchemaRefRefs 0 renames schemaRef h = None"
| "updateSchemaRefRefs (Suc n) renames schemaRef h =
     (case schemaRef of
        None \<Rightarrow> Some h
      | Some a \<Rightarrow>
          (let r = schemaRefs h a;
               h = h\<lparr>schemaRefs := (schemaRefs h)(a := r\<lparr>sr_Ref := rewriteRef renames (sr_Ref r)\<rparr>)\<rparr>
           in (case sr_Value r of
                 None \<Rightarrow> Some h
               | Some v \<Rightarrow>
                   updateNestedSchemas (updateSchemaRefRefs n renames) (schemas h v) h)))"

definition updateMediaTypes ::
    "nat \<Rightarrow> renames \<Rightarrow> (string \<times> MediaType) list \<Rightarrow> heap \<Rightarrow> heap option" where
  "updateMediaTypes n renames content h =
     forEach (\<lambda>mediaType h.
                if mt_Schema mediaType \<noteq> None
                then updateSchemaRefRefs n renames (mt_Schema mediaType) h else Some h)
       (map snd content) h"

definition updateParameterRefRefs ::
    "nat \<Rightarrow> renames \<Rightarrow> ParameterRef \<Rightarrow> heap \<Rightarrow> (ParameterRef \<times> heap) option" where
  "updateParameterRefRefs n renames paramRef h =
     (let paramRef' = paramRef\<lparr>pr_Ref := rewriteRef renames (pr_Ref paramRef)\<rparr>
      in (case pr_Value paramRef of
            None \<Rightarrow> Some (paramRef', h)
          | Some v \<Rightarrow>
              if p_Schema v \<noteq> None
              then do { h' \<leftarrow> updateSchemaRefRefs n renames (p_Schema v) h; Some (paramRef', h') }
              else Some (paramRef', h)))"

definition updateRequestBodyRefRefs ::
    "nat \<Rightarrow> renames \<Rightarrow> RequestBodyRef \<Rightarrow> heap \<Rightarrow> (RequestBodyRef \<times> heap) option" where
  "updateRequestBodyRefRefs n renames bodyRef h =
     (let bodyRef' = bodyRef\<lparr>rbr_Ref := rewriteRef renames (rbr_Ref bodyRef)\<rparr>
      in (case rbr_Value bodyRef of
            None \<Rightarrow> Some (bodyRef', h)
          | Some v \<Rightarrow>
              do { h' \<leftarrow> updateMediaTypes n renames (rb_Content v) h; Some (bodyRef', h') }))"

definition updateHeaderRefRefs ::
    "nat \<Rightarrow> renames \<Rightarrow> HeaderRef \<Rightarrow> heap \<Rightarrow> (HeaderRef \<times> heap) option" where
  "updateHeaderRefRefs n renames headerRef h =
     (let headerRef' = headerRef\<lparr>hr_Ref := rewriteRef renames (hr_Ref headerRef)\<rparr>
      in (case hr_Value headerRef of
            None \<Rightarrow> Some (headerRef', h)
          | Some v \<Rightarrow>
              if h_Schema v \<noteq> None
              then do { h' \<leftarrow> updateSchemaRefRefs n renames (h_Schema v) h; Some (headerRef', h') }
              else Some (headerRef', h)))"

text \<open>A loop over a list, and over the values of a map, of objects that are updated.\<close>

fun updateAll ::
    "('a \<Rightarrow> heap \<Rightarrow> ('a \<times> heap) option) \<Rightarrow> 'a list \<Rightarrow> heap \<Rightarrow> ('a list \<times> heap) option" where
  "updateAll f [] h = Some ([], h)"
| "updateAll f (x # xs) h =
     do { (x', h1) \<leftarrow> f x h; (xs', h2) \<leftarrow> updateAll f xs h1; Some (x' # xs', h2) }"

fun updateValues ::
    "('a \<Rightarrow> heap \<Rightarrow> ('a \<times> heap) option) \<Rightarrow> (string \<times> 'a) list \<Rightarrow> heap
      \<Rightarrow> ((string \<times> 'a) list \<times> heap) option" where
  "updateValues f [] h = Some ([], h)"
| "updateValues f ((k, x) # rest) h =
     do { (x', h1) \<leftarrow> f x h; (rest', h2) \<leftarrow> updateValues f rest h1; Some ((k, x') # rest', h2) }"

definition updateResponseRefRefs ::
    "nat \<Rightarrow> renames \<Rightarrow> ResponseRef \<Rightarrow> heap \<Rightarrow> (ResponseRef \<times> heap) option" where
  "updateResponseRefRefs n renames respRef h =
     (let respRef' = respRef\<lparr>rr_Ref := rewriteRef renames (rr_Ref respRef)\<rparr>
      in (case rr_Value respRef of
            None \<Rightarrow> Some (respRef', h)
          | Some v \<Rightarrow>
              do {
                h1 \<leftarrow> updateMediaTypes n renames (rs_Content v) h;
                (headers', h2) \<leftarrow> updateValues (updateHeaderRefRefs n renames) (rs_Headers v) h1;
                Some (respRef'\<lparr>rr_Value := Some (v\<lparr>rs_Headers := headers'\<rparr>)\<rparr>, h2)
              }))"


text \<open>
  Path items, operations and callbacks call each other. The loops over the callbacks of
  an operation and over the path items of a callback are functions of their own here.
\<close>

function (sequential) updatePathItemRefs ::
    "nat \<Rightarrow> renames \<Rightarrow> PathItem option \<Rightarrow> heap \<Rightarrow> (PathItem option \<times> heap) option"
  and updateOperation ::
    "nat \<Rightarrow> renames \<Rightarrow> Operation option \<Rightarrow> heap \<Rightarrow> (Operation option \<times> heap) option"
  and updateOperationRefs ::
    "nat \<Rightarrow> renames \<Rightarrow> Operation \<Rightarrow> heap \<Rightarrow> (Operation \<times> heap) option"
  and updateCallbacks ::
    "nat \<Rightarrow> renames \<Rightarrow> (string \<times> CallbackRef) list \<Rightarrow> heap
      \<Rightarrow> ((string \<times> CallbackRef) list \<times> heap) option"
  and updateCallbackRefRefs ::
    "nat \<Rightarrow> renames \<Rightarrow> CallbackRef \<Rightarrow> heap \<Rightarrow> (CallbackRef \<times> heap) option"
  and updateCallbackPathItems ::
    "nat \<Rightarrow> renames \<Rightarrow> (string \<times> PathItem option) list \<Rightarrow> heap
      \<Rightarrow> ((string \<times> PathItem option) list \<times> heap) option"
where
  "updatePathItemRefs n renames None h = Some (None, h)"
| "updatePathItemRefs n renames
       (Some (PathItem get post put del patch head opts trace params)) h =
     do {
       (get', h) \<leftarrow> updateOperation n renames get h;
       (post', h) \<leftarrow> updateOperation n renames post h;
       (put', h) \<leftarrow> updateOperation n renames put h;
       (del', h) \<leftarrow> updateOperation n renames del h;
       (patch', h) \<leftarrow> updateOperation n renames patch h;
       (head', h) \<leftarrow> updateOperation n renames head h;
       (opts', h) \<leftarrow> updateOperation n renames opts h;
       (trace', h) \<leftarrow> updateOperation n renames trace h;
       (params', h) \<leftarrow> updateAll (updateParameterRefRefs n renames) params h;
       Some (Some (PathItem get' post' put' del' patch' head' opts' trace' params'), h)
     }"
| "updateOperation n renames None h = Some (None, h)"
| "updateOperation n renames (Some op) h =
     do { (op', h') \<leftarrow> updateOperationRefs n renames op h; Some (Some op', h') }"
| "updateOperationRefs n renames (Operation tags parameters requestBody responses callbacks) h =
     do {
       (parameters', h) \<leftarrow> updateAll (updateParameterRefRefs n renames) parameters h;
       (requestBody', h) \<leftarrow>
         (case requestBody of
            None \<Rightarrow> Some (None, h)
          | Some bodyRef \<Rightarrow>
              do { (bodyRef', h') \<leftarrow> updateRequestBodyRefRefs n renames bodyRef h;
                   Some (Some bodyRef', h') });
       (responses', h) \<leftarrow> updateValues (updateResponseRefRefs n renames) responses h;
       (callbacks', h) \<leftarrow> updateCallbacks n renames callbacks h;
       Some (Operation tags parameters' requestBody' responses' callbacks', h)
     }"
| "updateCallbacks n renames [] h = Some ([], h)"
| "updateCallbacks n renames ((name, callback) # rest) h =
     do {
       (callback', h1) \<leftarrow> updateCallbackRefRefs n renames callback h;
       (rest', h2) \<leftarrow> updateCallbacks n renames rest h1;
       Some ((name, callback') # rest', h2)
     }"
| "updateCallbackRefRefs n renames (CallbackRef ref val) h =
     (let ref' = rewriteRef renames ref
      in (case val of
            None \<Rightarrow> Some (CallbackRef ref' None, h)
          | Some pathItems \<Rightarrow>
              do { (pathItems', h') \<leftarrow> updateCallbackPathItems n renames pathItems h;
                   Some (CallbackRef ref' (Some pathItems'), h') }))"
| "updateCallbackPathItems n renames [] h = Some ([], h)"
| "updateCallbackPathItems n renames ((path, pathItem) # rest) h =
     do {
       (pathItem', h1) \<leftarrow> updatePathItemRefs n renames pathItem h;
       (rest', h2) \<leftarrow> updateCallbackPathItems n renames rest h1;
       Some ((path, pathItem') # rest', h2)
     }"
  by pat_completeness auto

text \<open>Each call is on a part of the tree it comes from.\<close>

termination
  apply (relation "measure (\<lambda>x. case x of
      Inl (Inl (n, renames, pathItem, h)) \<Rightarrow> size_option size pathItem
    | Inl (Inr (Inl (n, renames, op, h))) \<Rightarrow> size_option size op
    | Inl (Inr (Inr (n, renames, op, h))) \<Rightarrow> size op
    | Inr (Inl (n, renames, callbacks, h)) \<Rightarrow> size_list (size_prod (\<lambda>_. 0) size) callbacks
    | Inr (Inr (Inl (n, renames, callback, h))) \<Rightarrow> size callback
    | Inr (Inr (Inr (n, renames, pathItems, h))) \<Rightarrow>
        size_list (size_prod (\<lambda>_. 0) (size_option size)) pathItems)")
                 apply (simp_all (no_asm))
  apply simp
  done

definition updateComponentsRefs ::
    "nat \<Rightarrow> renames \<Rightarrow> Components \<Rightarrow> heap \<Rightarrow> (Components \<times> heap) option" where
  "updateComponentsRefs n renames components h =
     do {
       h \<leftarrow> forEach (updateSchemaRefRefs n renames) (map snd (c_Schemas components)) h;
       (parameters', h) \<leftarrow>
         updateValues (updateParameterRefRefs n renames) (c_Parameters components) h;
       (responses', h) \<leftarrow>
         updateValues (updateResponseRefRefs n renames) (c_Responses components) h;
       (bodies', h) \<leftarrow>
         updateValues (updateRequestBodyRefRefs n renames) (c_RequestBodies components) h;
       (headers', h) \<leftarrow> updateValues (updateHeaderRefRefs n renames) (c_Headers components) h;
       (callbacks', h) \<leftarrow> updateCallbacks n renames (c_Callbacks components) h;
       Some (components\<lparr>c_Parameters := parameters', c_Responses := responses',
               c_RequestBodies := bodies', c_Headers := headers',
               c_Callbacks := callbacks'\<rparr>, h)
     }"

definition updateRefs :: "nat \<Rightarrow> renames \<Rightarrow> T \<Rightarrow> heap \<Rightarrow> (T \<times> heap) option" where
  "updateRefs n renames spec h =
     (if renames = [] then Some (spec, h)
      else do {
        (paths', h) \<leftarrow>
          (case t_Paths spec of
             None \<Rightarrow> Some (None, h)
           | Some paths \<Rightarrow>
               do { (paths', h') \<leftarrow> updateValues (updatePathItemRefs n renames) paths h;
                    Some (Some paths', h') });
        (components', h) \<leftarrow>
          (case t_Components spec of
             None \<Rightarrow> Some (None, h)
           | Some components \<Rightarrow>
               do { (components', h') \<leftarrow> updateComponentsRefs n renames components h;
                    Some (Some components', h') });
        Some (spec\<lparr>t_Paths := paths', t_Components := components'\<rparr>, h)
      })"

definition applyDisputePrefix :: "nat \<Rightarrow> T \<Rightarrow> string \<Rightarrow> heap \<Rightarrow> (T \<times> heap) option" where
  "applyDisputePrefix n spec prefix h =
     (case t_Components spec of
        None \<Rightarrow> Some (spec, h)
      | Some components \<Rightarrow>
          (let renames = [];
               (schemas', renames) = renameSchemas prefix (c_Schemas components) renames;
               (responses', renames) =
                 renameComponents ''#/components/responses/'' prefix
                   (c_Responses components) renames;
               (parameters', renames) =
                 renameComponents ''#/components/parameters/'' prefix
                   (c_Parameters components) renames;
               (schemes', renames) =
                 renameComponents ''#/components/securitySchemes/'' prefix
                   (c_SecuritySchemes components) renames;
               (bodies', renames) =
                 renameComponents ''#/components/requestBodies/'' prefix
                   (c_RequestBodies components) renames;
               components' = components\<lparr>c_Schemas := schemas', c_Responses := responses',
                 c_Parameters := parameters', c_SecuritySchemes := schemes',
                 c_RequestBodies := bodies'\<rparr>
           in updateRefs n renames (spec\<lparr>t_Components := Some components'\<rparr>) h))"


section \<open>The graph of the schema objects\<close>

text \<open>
  The pointers to nested schema references that the traversal follows from a schema:
  \<^verbatim>\<open>Items\<close>, the values of \<^verbatim>\<open>Properties\<close>, \<^verbatim>\<open>AdditionalProperties\<close>, the entries of
  \<^verbatim>\<open>AllOf\<close>, \<^verbatim>\<open>OneOf\<close> and \<^verbatim>\<open>AnyOf\<close>, and \<^verbatim>\<open>Not\<close>.
\<close>

definition schemaChildren :: "Schema \<Rightarrow> addr option list" where
  "schemaChildren schema =
     [s_Items schema] @ map snd (s_Properties schema) @ [s_AdditionalProperties schema] @
     s_AllOf schema @ s_OneOf schema @ s_AnyOf schema @ [s_Not schema]"

text \<open>
  The edges of the graph: from a schema reference to each schema reference nested in
  the schema that its \<^verbatim>\<open>Value\<close> points to.
\<close>

definition refEdges :: "heap \<Rightarrow> (addr \<times> addr) set" where
  "refEdges h =
     {(a, c). \<exists>v. sr_Value (schemaRefs h a) = Some v \<and> Some c \<in> set (schemaChildren (schemas h v))}"

text \<open>
  Two stores with the same pointers: the traversal writes reference strings only, so
  the store it works on always has the pointers of the store it started with.
\<close>

definition samePointers :: "heap \<Rightarrow> heap \<Rightarrow> bool" where
  "samePointers h h' =
     (schemas h' = schemas h \<and> (\<forall>a. sr_Value (schemaRefs h' a) = sr_Value (schemaRefs h a)))"

text \<open>
  The seven steps that the traversal takes on the nested schemas of one schema, in the
  order of the source; \<open>rec\<close> is the recursive call.
\<close>

definition nestedSteps ::
    "(addr option \<Rightarrow> heap \<Rightarrow> heap option) \<Rightarrow> Schema \<Rightarrow> (heap \<Rightarrow> heap option) list" where
  "nestedSteps rec schema =
     [\<lambda>h. if s_Items schema \<noteq> None then rec (s_Items schema) h else Some h,
      forEach rec (map snd (s_Properties schema)),
      \<lambda>h. if s_AdditionalProperties schema \<noteq> None
           then rec (s_AdditionalProperties schema) h else Some h,
      forEach rec (s_AllOf schema),
      forEach rec (s_OneOf schema),
      forEach rec (s_AnyOf schema),
      \<lambda>h. if s_Not schema \<noteq> None then rec (s_Not schema) h else Some h]"


section \<open>The path ordering of the output\<close>

text \<open>
  \<^verbatim>\<open>sortPaths\<close> gets the paths of the composite as a Go map (read back from its JSON
  form) and returns a Go map. Go compares strings byte by byte, which is the
  lexicographic order of \<open>string\<close>.

  The two sorting loops exchange the entries at \<open>i\<close> and \<open>j\<close> that are out of order, for
  every \<open>i\<close> and every \<open>j\<close> after it.
\<close>

function sortInner :: "nat \<Rightarrow> nat \<Rightarrow> string list \<Rightarrow> string list" where
  "sortInner i j remainingPaths =
     (if j < length remainingPaths
      then sortInner i (Suc j)
             (if remainingPaths ! i > remainingPaths ! j
              then remainingPaths[i := remainingPaths ! j, j := remainingPaths ! i]
              else remainingPaths)
      else remainingPaths)"
  by pat_completeness auto

termination
  by (relation "measure (\<lambda>(i, j, remainingPaths). length remainingPaths - j)") auto

declare sortInner.simps [simp del]

lemma length_sortInner: "length (sortInner i j xs) = length xs"
proof (induction i j xs rule: sortInner.induct)
  case (1 i j xs)
  show ?case
  proof (cases "j < length xs")
    case True
    with 1 show ?thesis by (subst sortInner.simps) simp
  next
    case False
    then show ?thesis by (subst sortInner.simps) simp
  qed
qed

function sortOuter :: "nat \<Rightarrow> string list \<Rightarrow> string list" where
  "sortOuter i remainingPaths =
     (if i < length remainingPaths
      then sortOuter (Suc i) (sortInner i (Suc i) remainingPaths)
      else remainingPaths)"
  by pat_completeness auto

termination
  by (relation "measure (\<lambda>(i, remainingPaths). length remainingPaths - i)")
    (auto simp: length_sortInner)

declare sortOuter.simps [simp del]

text \<open>
  The priority loop appends, for each configured path in turn, every key equal to it;
  the next loop keeps the keys that are no priority path.
\<close>

definition priorityPaths :: "string list \<Rightarrow> string list \<Rightarrow> string list" where
  "priorityPaths pathsOrder allPaths =
     concat (map (\<lambda>priorityPath. filter (\<lambda>path. path = priorityPath) allPaths) pathsOrder)"

definition notPriorityPaths :: "string list \<Rightarrow> string list \<Rightarrow> string list" where
  "notPriorityPaths pathsOrder allPaths =
     filter (\<lambda>path. \<not> list_ex (\<lambda>priorityPath. path = priorityPath) pathsOrder) allPaths"

text \<open>The slice \<open>sortedPaths\<close> that \<^verbatim>\<open>sortPaths\<close> builds before it fills the map.\<close>

definition sortedPaths :: "string list \<Rightarrow> string list \<Rightarrow> string list" where
  "sortedPaths pathsOrder allPaths =
     priorityPaths pathsOrder allPaths @ sortOuter 0 (notPriorityPaths pathsOrder allPaths)"

text \<open>
  The result \<open>orderedPaths\<close> is a Go map, which has no order of its keys: it is a map of
  HOL. Each key of \<open>sortedPaths\<close> is a key of \<open>paths\<close>, so \<^verbatim>\<open>paths[path]\<close> is its value.
\<close>

definition sortPaths :: "string list \<Rightarrow> (string \<times> 'v) list \<Rightarrow> (string \<rightharpoonup> 'v)" where
  "sortPaths pathsOrder paths =
     (let allPaths = map fst paths
      in fold (\<lambda>path orderedPaths. orderedPaths(path := map_of paths path))
           (sortedPaths pathsOrder allPaths) Map.empty)"


section \<open>Example documents\<close>

text \<open>Small documents and configurations on which the theorems are instantiated.\<close>

definition ex_operation :: "string list \<Rightarrow> Operation" where
  "ex_operation tags = Operation tags [] None [] []"

definition ex_item_get :: "string list \<Rightarrow> PathItem" where
  "ex_item_get tags = PathItem (Some (ex_operation tags)) None None None None None None None []"

definition ex_item_post :: "string list \<Rightarrow> PathItem" where
  "ex_item_post tags = PathItem None (Some (ex_operation tags)) None None None None None None []"

definition ex_input :: InputConfig where
  "ex_input = \<lparr>in_Dispute = None, in_PathModification = None, in_OperationSelection = None,
     in_IncludeExtraParameters = [], in_ExcludeParameters = []\<rparr>"

definition ex_doc :: "Paths \<Rightarrow> T" where
  "ex_doc paths = \<lparr>t_Paths = Some paths, t_Components = None, t_Tags = []\<rparr>"

definition ex_sel :: OperationSelectionConfig where
  "ex_sel = \<lparr>sel_IncludeTags = [], sel_ExcludeTags = [''Admin''], sel_IncludePaths = [],
     sel_ExcludePaths = []\<rparr>"

text \<open>
  Library functions for the examples: a glob library that takes no pattern as valid, so
  that the filter compares paths exactly, and a comparison that folds the ASCII letters.
\<close>

definition ex_library :: library where
  "ex_library = \<lparr>Compile = (\<lambda>pattern. None), EqualFold = (\<lambda>s t. ToUpper s = ToUpper t)\<rparr>"

definition ex_param :: "string \<Rightarrow> string \<Rightarrow> string \<Rightarrow> ParameterRef" where
  "ex_param name loc description =
     \<lparr>pr_Ref = [], pr_Value = Some \<lparr>p_Name = name, p_In = loc, p_Description = description,
        p_Required = False, p_Deprecated = False, p_AllowEmptyValue = False,
        p_Schema = None\<rparr>\<rparr>"

text \<open>
  A store with three schema objects, and a serialiser that writes the reference string
  of a reference and the description of a schema.
\<close>

definition ex_components :: "(string \<times> addr option) list \<Rightarrow> Components" where
  "ex_components ss = \<lparr>c_Schemas = ss, c_Parameters = [], c_Headers = [],
     c_RequestBodies = [], c_Responses = [], c_SecuritySchemes = [], c_Examples = [],
     c_Links = [], c_Callbacks = []\<rparr>"

definition ex_master :: "Paths \<Rightarrow> (string \<times> addr option) list \<Rightarrow> Master" where
  "ex_master paths ss = \<lparr>m_Paths = paths, m_Components = ex_components ss, m_Tags = []\<rparr>"

definition ex_schemaRef :: "string \<Rightarrow> addr option \<Rightarrow> SchemaRef" where
  "ex_schemaRef ref v = \<lparr>sr_Ref = ref, sr_Value = v\<rparr>"

definition ex_heap :: heap where
  "ex_heap = \<lparr>schemaRefs = (\<lambda>a. ex_schemaRef [] None)
       (0 := ex_schemaRef [] (Some 0), 1 := ex_schemaRef [] (Some 1),
        2 := ex_schemaRef [] (Some 2)),
     schemas = (\<lambda>a. zeroSchema)
       (0 := zeroSchema\<lparr>s_Description := ''id and name''\<rparr>,
        1 := zeroSchema\<lparr>s_Description := ''id only''\<rparr>,
        2 := zeroSchema\<lparr>s_Description := ''id and name''\<rparr>),
     nextAddr = 3\<rparr>"

definition ex_marshal :: marshal where
  "ex_marshal h a =
     (if sr_Ref (schemaRefs h a) \<noteq> [] then sr_Ref (schemaRefs h a)
      else (case sr_Value (schemaRefs h a) of
              None \<Rightarrow> ''null''
            | Some v \<Rightarrow> s_Description (schemas h v)))"

text \<open>
  A store whose graph has no cycle: the schema of reference 0 is an array with the items
  at reference 1, which refers to the component \<^verbatim>\<open>B\<close>, and a property at reference 2. A
  store whose graph has a cycle: the schema of reference 0 has a property at reference
  1, which refers to the component \<^verbatim>\<open>Node\<close> and points to the same schema.
\<close>

definition ex_renames :: renames where
  "ex_renames = [(''#/components/schemas/B'', ''#/components/schemas/AB'')]"

definition ex_nested :: heap where
  "ex_nested = \<lparr>schemaRefs = (\<lambda>a. ex_schemaRef [] None)
       (0 := ex_schemaRef [] (Some 0),
        1 := ex_schemaRef ''#/components/schemas/B'' None,
        2 := ex_schemaRef [] (Some 2)),
     schemas = (\<lambda>a. zeroSchema)
       (0 := zeroSchema\<lparr>s_Items := Some 1, s_Properties := [(''id'', Some 2)]\<rparr>),
     nextAddr = 3\<rparr>"

definition ex_cyclic :: heap where
  "ex_cyclic = \<lparr>schemaRefs = (\<lambda>a. ex_schemaRef [] None)
       (0 := ex_schemaRef [] (Some 0),
        1 := ex_schemaRef ''#/components/schemas/Node'' (Some 0)),
     schemas = (\<lambda>a. zeroSchema)
       (0 := zeroSchema\<lparr>s_Properties := [(''next'', Some 1)]\<rparr>),
     nextAddr = 2\<rparr>"

text \<open>
  A document with four schemas, as the loader builds it: a reference string is resolved
  by pointing the \<^verbatim>\<open>Value\<close> of the reference at the schema it names, so the schema of
  \<^verbatim>\<open>Item\<close> is the value of the component (reference 2) and of the items of \<^verbatim>\<open>List\<close>
  (reference 5). Reference 3 is the property \<^verbatim>\<open>x\<close> of \<^verbatim>\<open>Item\<close>, which refers to \<^verbatim>\<open>B\<close>.
\<close>

definition ex_shared :: heap where
  "ex_shared = \<lparr>schemaRefs = (\<lambda>a. ex_schemaRef [] None)
       (0 := ex_schemaRef [] (Some 0),
        1 := ex_schemaRef [] (Some 1),
        2 := ex_schemaRef [] (Some 2),
        3 := ex_schemaRef ''#/components/schemas/B'' (Some 0),
        4 := ex_schemaRef [] (Some 3),
        5 := ex_schemaRef ''#/components/schemas/Item'' (Some 2)),
     schemas = (\<lambda>a. zeroSchema)
       (0 := zeroSchema\<lparr>s_Type := Some [''string'']\<rparr>,
        1 := zeroSchema\<lparr>s_Type := Some [''integer'']\<rparr>,
        2 := zeroSchema\<lparr>s_Type := Some [''object''], s_Properties := [(''x'', Some 3)]\<rparr>,
        3 := zeroSchema\<lparr>s_Type := Some [''array''], s_Items := Some 5\<rparr>),
     nextAddr = 6\<rparr>"

definition ex_catalog :: "(string \<times> addr option) list \<Rightarrow> T" where
  "ex_catalog ss = \<lparr>t_Paths = None, t_Components = Some (ex_components ss), t_Tags = []\<rparr>"

section \<open>Theorems: the path rewriter\<close>

lemma rewritePath_spec:
  "rewritePath pm path = spec_rewritePath (pm_StripStart pm) (pm_Prepend pm) path"
  by (simp add: rewritePath_def spec_rewritePath_def TrimPrefix_def HasPrefix_def Let_def)

lemma keys_Set_path: "fst ` set (Set_path k v acc) = insert k (fst ` set acc)"
  by (simp add: Set_path_def dom_update)

lemma keys_fold_Set_path:
  "fst ` set (fold (\<lambda>(path, pathItem) newPaths. Set_path (f path) pathItem newPaths) ps acc)
     = fst ` set acc \<union> f ` fst ` set ps"
proof (induction ps arbitrary: acc)
  case Nil
  then show ?case by simp
next
  case (Cons p ps)
  obtain k v where p: "p = (k, v)" by (cases p)
  show ?case by (simp add: p Cons.IH keys_Set_path)
qed

lemma distinct_fold_Set_path:
  "distinct (map fst acc) \<Longrightarrow>
   distinct (map fst (fold (\<lambda>(path, pathItem) newPaths. Set_path (f path) pathItem newPaths) ps acc))"
  by (induction ps arbitrary: acc) (auto simp: Set_path_def distinct_update)

lemma map_of_fold_Set_path:
  "map_of (fold (\<lambda>(path, pathItem) newPaths. Set_path (f path) pathItem newPaths) ps acc)
     = map_of acc ++ map_of (rev (map (\<lambda>(k, v). (f k, v)) ps))"
proof (induction ps arbitrary: acc)
  case Nil
  then show ?case by simp
next
  case (Cons p ps)
  obtain k v where p: "p = (k, v)" by (cases p)
  have "map_of (Set_path (f k) v acc) = (map_of acc)(f k \<mapsto> v)"
    by (simp add: Set_path_def update_conv')
  then show ?case
    by (simp add: p Cons.IH fun_eq_iff map_add_def split: option.splits)
qed

text \<open>
  Claim C4. With a path-modification configuration, the keys of the rewritten path
  mapping are the keys of the original one, each rewritten as the specification says:
  \<open>stripStart\<close> is removed from the front when the key begins with it, \<open>prepend\<close> is put
  in front, and a slash is put in front of a result that does not begin with one. This
  is what the loop of \<open>modifyPaths\<close> computes for each key. With \<open>stripStart\<close>
  \<^verbatim>\<open>/health\<close> the key \<^verbatim>\<open>/health\<close> becomes \<^verbatim>\<open>/\<close>.
\<close>

theorem C4_rewritten_keys:
  "(in_PathModification input = Some pm \<longrightarrow> t_Paths spec = Some paths \<longrightarrow>
      (\<exists>newPaths. t_Paths (modifyPaths spec input) = Some newPaths \<and>
         fst ` set newPaths =
           spec_rewritePath (pm_StripStart pm) (pm_Prepend pm) ` fst ` set paths)) \<and>
   rewritePath pm path = spec_rewritePath (pm_StripStart pm) (pm_Prepend pm) path \<and>
   rewritePath \<lparr>pm_StripStart = ''/health'', pm_Prepend = ''''\<rparr> ''/health'' = ''/''"
proof -
  have "rewritePath pm = spec_rewritePath (pm_StripStart pm) (pm_Prepend pm)"
    by (rule ext) (rule rewritePath_spec)
  then have keys: "in_PathModification input = Some pm \<longrightarrow> t_Paths spec = Some paths \<longrightarrow>
      (\<exists>newPaths. t_Paths (modifyPaths spec input) = Some newPaths \<and>
         fst ` set newPaths =
           spec_rewritePath (pm_StripStart pm) (pm_Prepend pm) ` fst ` set paths)"
    by (auto simp: modifyPaths_def keys_fold_Set_path[where acc = "[]", simplified])
  have ex: "rewritePath \<lparr>pm_StripStart = ''/health'', pm_Prepend = ''''\<rparr> ''/health'' = ''/''"
    by (simp add: rewritePath_def HasPrefix_def TrimPrefix_def)
  from keys ex rewritePath_spec show ?thesis by blast
qed

text \<open>
  The theorem at the document of the repository's test of the path modification:
  \<^verbatim>\<open>/v1/users\<close> with \<open>stripStart\<close> \<^verbatim>\<open>/v1\<close> and \<open>prepend\<close> \<^verbatim>\<open>/api\<close>.
\<close>

theorem C4_rewritten_keys_witness:
  "in_PathModification (ex_input\<lparr>in_PathModification :=
       Some \<lparr>pm_StripStart = ''/v1'', pm_Prepend = ''/api''\<rparr>\<rparr>)
     = Some \<lparr>pm_StripStart = ''/v1'', pm_Prepend = ''/api''\<rparr> \<and>
   t_Paths (ex_doc [(''/v1/users'', Some (ex_item_get []))])
     = Some [(''/v1/users'', Some (ex_item_get []))] \<and>
   (\<exists>newPaths. t_Paths (modifyPaths (ex_doc [(''/v1/users'', Some (ex_item_get []))])
       (ex_input\<lparr>in_PathModification :=
          Some \<lparr>pm_StripStart = ''/v1'', pm_Prepend = ''/api''\<rparr>\<rparr>)) = Some newPaths \<and>
      fst ` set newPaths = {''/api/users''})"
  using C4_rewritten_keys [of "ex_input\<lparr>in_PathModification :=
       Some \<lparr>pm_StripStart = ''/v1'', pm_Prepend = ''/api''\<rparr>\<rparr>"
      "\<lparr>pm_StripStart = ''/v1'', pm_Prepend = ''/api''\<rparr>"
      "ex_doc [(''/v1/users'', Some (ex_item_get []))]"
      "[(''/v1/users'', Some (ex_item_get []))]" "''/v1/users''"]
  by (simp add: ex_input_def ex_doc_def spec_rewritePath_def HasPrefix_def)

text \<open>
  Claim C10. The path rewriter can lose a path item. With \<open>stripStart\<close> \<^verbatim>\<open>/v1\<close> the
  distinct keys \<^verbatim>\<open>/v1/users\<close> and \<^verbatim>\<open>/users\<close> are both rewritten to \<^verbatim>\<open>/users\<close>. The result
  is a document (no error) with the single path \<^verbatim>\<open>/users\<close>. It holds the path item
  that the loop took last: the one with the POST operation when \<^verbatim>\<open>/users\<close> came last,
  the one with the GET operation when \<^verbatim>\<open>/v1/users\<close> came last.
\<close>

theorem C10_path_overwritten:
  "distinct (map fst [(''/v1/users'', Some (ex_item_get [])), (''/users'', Some (ex_item_post []))]) \<and>
   rewritePath \<lparr>pm_StripStart = ''/v1'', pm_Prepend = ''''\<rparr> ''/v1/users'' = ''/users'' \<and>
   rewritePath \<lparr>pm_StripStart = ''/v1'', pm_Prepend = ''''\<rparr> ''/users'' = ''/users'' \<and>
   modifyPaths (ex_doc [(''/v1/users'', Some (ex_item_get [])), (''/users'', Some (ex_item_post []))])
       (ex_input\<lparr>in_PathModification := Some \<lparr>pm_StripStart = ''/v1'', pm_Prepend = ''''\<rparr>\<rparr>)
     = ex_doc [(''/users'', Some (ex_item_post []))] \<and>
   modifyPaths (ex_doc [(''/users'', Some (ex_item_post [])), (''/v1/users'', Some (ex_item_get []))])
       (ex_input\<lparr>in_PathModification := Some \<lparr>pm_StripStart = ''/v1'', pm_Prepend = ''''\<rparr>\<rparr>)
     = ex_doc [(''/users'', Some (ex_item_get []))]"
  by (simp add: modifyPaths_def ex_doc_def ex_input_def rewritePath_def HasPrefix_def
      TrimPrefix_def Set_path_def)

section \<open>Theorems: the operation filter\<close>

text \<open>The method names are in upper case already, and each names a field.\<close>

lemma ToUpper_methods:
  "ToUpper ''GET'' = ''GET''" "ToUpper ''POST'' = ''POST''" "ToUpper ''PUT'' = ''PUT''"
  "ToUpper ''DELETE'' = ''DELETE''" "ToUpper ''PATCH'' = ''PATCH''" "ToUpper ''HEAD'' = ''HEAD''"
  "ToUpper ''OPTIONS'' = ''OPTIONS''" "ToUpper ''TRACE'' = ''TRACE''"
  by (simp_all add: ToUpper_def upperChar_def less_eq_char_def)

lemma removeOperation_GET:
  "removeOperation (PathItem a1 a2 a3 a4 a5 a6 a7 a8 ps) ''GET'' = PathItem None a2 a3 a4 a5 a6 a7 a8 ps"
  by (simp add: ToUpper_methods)

lemma filterOperation_GET:
  "a1 = x \<Longrightarrow> filterOperation C sel path (''GET'', x) (PathItem a1 a2 a3 a4 a5 a6 a7 a8 ps) = PathItem (keepOperation C sel path ''GET'' x) a2 a3 a4 a5 a6 a7 a8 ps"
  by (cases x) (simp_all add: filterOperation_def removeOperation_GET keepOperation_def
      del: removeOperation.simps)

lemma removeOperation_POST:
  "removeOperation (PathItem a1 a2 a3 a4 a5 a6 a7 a8 ps) ''POST'' = PathItem a1 None a3 a4 a5 a6 a7 a8 ps"
  by (simp add: ToUpper_methods)

lemma filterOperation_POST:
  "a2 = x \<Longrightarrow> filterOperation C sel path (''POST'', x) (PathItem a1 a2 a3 a4 a5 a6 a7 a8 ps) = PathItem a1 (keepOperation C sel path ''POST'' x) a3 a4 a5 a6 a7 a8 ps"
  by (cases x) (simp_all add: filterOperation_def removeOperation_POST keepOperation_def
      del: removeOperation.simps)

lemma removeOperation_PUT:
  "removeOperation (PathItem a1 a2 a3 a4 a5 a6 a7 a8 ps) ''PUT'' = PathItem a1 a2 None a4 a5 a6 a7 a8 ps"
  by (simp add: ToUpper_methods)

lemma filterOperation_PUT:
  "a3 = x \<Longrightarrow> filterOperation C sel path (''PUT'', x) (PathItem a1 a2 a3 a4 a5 a6 a7 a8 ps) = PathItem a1 a2 (keepOperation C sel path ''PUT'' x) a4 a5 a6 a7 a8 ps"
  by (cases x) (simp_all add: filterOperation_def removeOperation_PUT keepOperation_def
      del: removeOperation.simps)

lemma removeOperation_DELETE:
  "removeOperation (PathItem a1 a2 a3 a4 a5 a6 a7 a8 ps) ''DELETE'' = PathItem a1 a2 a3 None a5 a6 a7 a8 ps"
  by (simp add: ToUpper_methods)

lemma filterOperation_DELETE:
  "a4 = x \<Longrightarrow> filterOperation C sel path (''DELETE'', x) (PathItem a1 a2 a3 a4 a5 a6 a7 a8 ps) = PathItem a1 a2 a3 (keepOperation C sel path ''DELETE'' x) a5 a6 a7 a8 ps"
  by (cases x) (simp_all add: filterOperation_def removeOperation_DELETE keepOperation_def
      del: removeOperation.simps)

lemma removeOperation_PATCH:
  "removeOperation (PathItem a1 a2 a3 a4 a5 a6 a7 a8 ps) ''PATCH'' = PathItem a1 a2 a3 a4 None a6 a7 a8 ps"
  by (simp add: ToUpper_methods)

lemma filterOperation_PATCH:
  "a5 = x \<Longrightarrow> filterOperation C sel path (''PATCH'', x) (PathItem a1 a2 a3 a4 a5 a6 a7 a8 ps) = PathItem a1 a2 a3 a4 (keepOperation C sel path ''PATCH'' x) a6 a7 a8 ps"
  by (cases x) (simp_all add: filterOperation_def removeOperation_PATCH keepOperation_def
      del: removeOperation.simps)

lemma removeOperation_HEAD:
  "removeOperation (PathItem a1 a2 a3 a4 a5 a6 a7 a8 ps) ''HEAD'' = PathItem a1 a2 a3 a4 a5 None a7 a8 ps"
  by (simp add: ToUpper_methods)

lemma filterOperation_HEAD:
  "a6 = x \<Longrightarrow> filterOperation C sel path (''HEAD'', x) (PathItem a1 a2 a3 a4 a5 a6 a7 a8 ps) = PathItem a1 a2 a3 a4 a5 (keepOperation C sel path ''HEAD'' x) a7 a8 ps"
  by (cases x) (simp_all add: filterOperation_def removeOperation_HEAD keepOperation_def
      del: removeOperation.simps)

lemma removeOperation_OPTIONS:
  "removeOperation (PathItem a1 a2 a3 a4 a5 a6 a7 a8 ps) ''OPTIONS'' = PathItem a1 a2 a3 a4 a5 a6 None a8 ps"
  by (simp add: ToUpper_methods)

lemma filterOperation_OPTIONS:
  "a7 = x \<Longrightarrow> filterOperation C sel path (''OPTIONS'', x) (PathItem a1 a2 a3 a4 a5 a6 a7 a8 ps) = PathItem a1 a2 a3 a4 a5 a6 (keepOperation C sel path ''OPTIONS'' x) a8 ps"
  by (cases x) (simp_all add: filterOperation_def removeOperation_OPTIONS keepOperation_def
      del: removeOperation.simps)

lemma removeOperation_TRACE:
  "removeOperation (PathItem a1 a2 a3 a4 a5 a6 a7 a8 ps) ''TRACE'' = PathItem a1 a2 a3 a4 a5 a6 a7 None ps"
  by (simp add: ToUpper_methods)

lemma filterOperation_TRACE:
  "a8 = x \<Longrightarrow> filterOperation C sel path (''TRACE'', x) (PathItem a1 a2 a3 a4 a5 a6 a7 a8 ps) = PathItem a1 a2 a3 a4 a5 a6 a7 (keepOperation C sel path ''TRACE'' x) ps"
  by (cases x) (simp_all add: filterOperation_def removeOperation_TRACE keepOperation_def
      del: removeOperation.simps)

lemma filterPathItem_eq:
  "filterPathItem C sel path (PathItem a1 a2 a3 a4 a5 a6 a7 a8 ps) = PathItem (keepOperation C sel path ''GET'' a1) (keepOperation C sel path ''POST'' a2) (keepOperation C sel path ''PUT'' a3) (keepOperation C sel path ''DELETE'' a4) (keepOperation C sel path ''PATCH'' a5) (keepOperation C sel path ''HEAD'' a6) (keepOperation C sel path ''OPTIONS'' a7) (keepOperation C sel path ''TRACE'' a8) ps"
  by (simp add: filterPathItem_def getOperationsMap_def filterOperation_GET filterOperation_POST filterOperation_PUT filterOperation_DELETE filterOperation_PATCH filterOperation_HEAD filterOperation_OPTIONS filterOperation_TRACE
      del: removeOperation.simps)

lemma keepOperation_idem:
  "keepOperation C sel path m (keepOperation C sel path m x) = keepOperation C sel path m x"
  by (simp add: keepOperation_def split: option.splits)

lemma filterPathItem_idem:
  "filterPathItem C sel path (filterPathItem C sel path pathItem)
     = filterPathItem C sel path pathItem"
  by (cases pathItem) (simp add: filterPathItem_eq keepOperation_idem)

lemma filterPathItem_selectors:
  "pi_Get (filterPathItem C sel path p) = keepOperation C sel path ''GET'' (pi_Get p)"
  "pi_Post (filterPathItem C sel path p) = keepOperation C sel path ''POST'' (pi_Post p)"
  "pi_Put (filterPathItem C sel path p) = keepOperation C sel path ''PUT'' (pi_Put p)"
  "pi_Delete (filterPathItem C sel path p) = keepOperation C sel path ''DELETE'' (pi_Delete p)"
  "pi_Patch (filterPathItem C sel path p) = keepOperation C sel path ''PATCH'' (pi_Patch p)"
  "pi_Head (filterPathItem C sel path p) = keepOperation C sel path ''HEAD'' (pi_Head p)"
  "pi_Options (filterPathItem C sel path p) = keepOperation C sel path ''OPTIONS'' (pi_Options p)"
  "pi_Trace (filterPathItem C sel path p) = keepOperation C sel path ''TRACE'' (pi_Trace p)"
  "pi_Parameters (filterPathItem C sel path p) = pi_Parameters p"
  by (cases p, simp add: filterPathItem_eq)+

text \<open>What the first loop of the filter returns: the filtered entries and the keys to remove.\<close>

lemma filterPaths_fst:
  "fst (filterPaths C sel paths acc)
     = map (\<lambda>(path, pathItem). (path, map_option (filterPathItem C sel path) pathItem)) paths"
proof (induction paths arbitrary: acc)
  case Nil
  then show ?case by simp
next
  case (Cons e paths)
  obtain path pathItem where e: "e = (path, pathItem)" by (cases e)
  show ?case
    by (cases pathItem) (simp_all add: e Cons.IH Let_def split_beta)
qed

lemma filterPaths_snd:
  "set (snd (filterPaths C sel paths acc))
     = set acc \<union> {path. \<exists>pathItem. (path, Some pathItem) \<in> set paths \<and>
                       isPathItemEmpty (filterPathItem C sel path pathItem)}"
proof (induction paths arbitrary: acc)
  case Nil
  then show ?case by simp
next
  case (Cons e paths)
  obtain path pathItem where e: "e = (path, pathItem)" by (cases e)
  show ?case
  proof (cases pathItem)
    case None
    then show ?thesis by (auto simp: e Cons.IH Let_def split_beta)
  next
    case (Some p)
    then show ?thesis by (auto simp: e Cons.IH Let_def split_beta)
  qed
qed

lemma fold_Delete_path:
  "fold Delete_path keys paths = filter (\<lambda>(k, v). k \<notin> set keys) paths"
proof (induction keys arbitrary: paths)
  case Nil
  then show ?case by simp
next
  case (Cons k keys)
  have "Delete_path k paths = filter (\<lambda>(k', v). k' \<noteq> k) paths"
    by (simp add: Delete_path_def AList.delete_eq split_def eq_commute)
  then show ?case by (auto simp: Cons.IH split_def intro: filter_cong)
qed

lemma filterPaths_settled:
  "\<forall>e \<in> set paths. settled C sel e \<Longrightarrow> filterPaths C sel paths acc = (paths, acc)"
proof (induction paths arbitrary: acc)
  case Nil
  then show ?case by simp
next
  case (Cons e paths)
  obtain path pathItem where e: "e = (path, pathItem)" by (cases e)
  from Cons.prems have rest: "\<forall>e \<in> set paths. settled C sel e" by simp
  from Cons.prems have here: "settled C sel (path, pathItem)" by (simp add: e)
  show ?case
  proof (cases pathItem)
    case None
    then show ?thesis by (simp add: e Cons.IH[OF rest])
  next
    case (Some p)
    with here show ?thesis by (simp add: e Cons.IH[OF rest] settled_def)
  qed
qed

lemma filterOperations_paths:
  assumes "in_OperationSelection input = Some sel" and "t_Paths spec = Some paths"
  shows "t_Paths (filterOperations C spec input) =
     Some (filter (\<lambda>(k, v). k \<notin> set (snd (filterPaths C sel paths [])))
            (fst (filterPaths C sel paths [])))"
  using assms by (simp add: filterOperations_def fold_Delete_path split_beta)

lemma filterOperations_settled:
  assumes sel: "in_OperationSelection input = Some sel"
    and paths: "t_Paths spec = Some paths"
    and res: "t_Paths (filterOperations C spec input) = Some paths'"
    and e: "e \<in> set paths'"
  shows "settled C sel e"
proof -
  obtain path v where pv: "e = (path, v)" by (cases e)
  from res filterOperations_paths[OF sel paths, of C]
  have p': "paths' = filter (\<lambda>(k, v). k \<notin> set (snd (filterPaths C sel paths [])))
            (fst (filterPaths C sel paths []))" by simp
  from e p' pv have notrm: "path \<notin> set (snd (filterPaths C sel paths []))"
    and mem: "(path, v) \<in> set (fst (filterPaths C sel paths []))" by auto
  show ?thesis
  proof (cases v)
    case None
    then show ?thesis by (simp add: settled_def pv)
  next
    case (Some p)
    from mem Some obtain b where b: "(path, b) \<in> set paths"
      and pb: "Some p = map_option (filterPathItem C sel path) b"
      by (auto simp: filterPaths_fst)
    from pb obtain p0 where b0: "b = Some p0" and p: "p = filterPathItem C sel path p0"
      by (cases b) auto
    from b b0 have p0: "(path, Some p0) \<in> set paths" by simp
    from notrm p0 have "\<not> isPathItemEmpty (filterPathItem C sel path p0)"
      by (auto simp: filterPaths_snd)
    with p Some show ?thesis by (simp add: settled_def pv filterPathItem_idem)
  qed
qed

lemma filterOperations_again:
  assumes sel: "in_OperationSelection input = Some sel"
    and all: "\<forall>e \<in> set qs. settled C sel e"
  shows "filterOperations C (spec\<lparr>t_Paths := Some qs\<rparr>) input = spec\<lparr>t_Paths := Some qs\<rparr>"
  using sel by (simp add: filterOperations_def filterPaths_settled[OF all])

text \<open>
  Claim C5. \<^verbatim>\<open>filterOperations\<close> starts with a guard: for an input without an
  \<^verbatim>\<open>operationSelection\<close> block it returns the document as it is.

  \<^item> When the input has the block (empty or not), no path item of the resulting path
    mapping is empty, and the key of every path item that the filter leaves without an
    operation is gone from the mapping. (A key that holds a nil pointer is skipped by
    the filter and holds no path item.)
  \<^item> When the input has no block, the result is the document: a path item that has no
    operation in the document stays in the mapping, as the example after the theorem
    shows.
\<close>

theorem C5_no_empty_path_item:
  "(in_OperationSelection input = Some sel \<longrightarrow> t_Paths spec = Some paths \<longrightarrow>
      (\<exists>paths'. t_Paths (filterOperations C spec input) = Some paths' \<and>
         (\<forall>path pathItem. (path, Some pathItem) \<in> set paths' \<longrightarrow> \<not> isPathItemEmpty pathItem) \<and>
         (\<forall>path pathItem. (path, Some pathItem) \<in> set paths \<longrightarrow>
            isPathItemEmpty (filterPathItem C sel path pathItem) \<longrightarrow>
            path \<notin> fst ` set paths'))) \<and>
   (in_OperationSelection input = None \<longrightarrow> filterOperations C spec input = spec)"
proof (intro conjI impI)
  assume sel: "in_OperationSelection input = Some sel" and paths: "t_Paths spec = Some paths"
  let ?rm = "snd (filterPaths C sel paths [])"
  let ?paths' = "filter (\<lambda>(k, v). k \<notin> set ?rm) (fst (filterPaths C sel paths []))"
  have res: "t_Paths (filterOperations C spec input) = Some ?paths'"
    by (rule filterOperations_paths[OF sel paths])
  have nonempty: "\<not> isPathItemEmpty pathItem" if "(path, Some pathItem) \<in> set ?paths'"
    for path pathItem
    using filterOperations_settled[OF sel paths res that] by (simp add: settled_def)
  have gone: "path \<notin> fst ` set ?paths'"
    if "(path, Some pathItem) \<in> set paths"
      and "isPathItemEmpty (filterPathItem C sel path pathItem)" for path pathItem
  proof -
    from that have "path \<in> set ?rm" by (auto simp: filterPaths_snd)
    then show ?thesis by auto
  qed
  from res nonempty gone
  show "\<exists>paths'. t_Paths (filterOperations C spec input) = Some paths' \<and>
         (\<forall>path pathItem. (path, Some pathItem) \<in> set paths' \<longrightarrow> \<not> isPathItemEmpty pathItem) \<and>
         (\<forall>path pathItem. (path, Some pathItem) \<in> set paths \<longrightarrow>
            isPathItemEmpty (filterPathItem C sel path pathItem) \<longrightarrow>
            path \<notin> fst ` set paths')"
    by blast
next
  assume "in_OperationSelection input = None"
  then show "filterOperations C spec input = spec" by (simp add: filterOperations_def)
qed

text \<open>
  The theorem at the document of the repository's test of the operation selection: the
  tag \<^verbatim>\<open>Admin\<close> is excluded, the path \<^verbatim>\<open>/admin\<close> loses its only operation and is deleted.
  The same document with the default input, which has no block, is returned unchanged.
\<close>

theorem C5_no_empty_path_item_witness:
  "in_OperationSelection (ex_input\<lparr>in_OperationSelection := Some ex_sel\<rparr>) = Some ex_sel \<and>
   t_Paths (ex_doc [(''/users'', Some (ex_item_get [''Users''])),
                    (''/admin'', Some (ex_item_get [''Admin'']))])
     = Some [(''/users'', Some (ex_item_get [''Users''])),
             (''/admin'', Some (ex_item_get [''Admin'']))] \<and>
   t_Paths (filterOperations ex_library
       (ex_doc [(''/users'', Some (ex_item_get [''Users''])),
                (''/admin'', Some (ex_item_get [''Admin'']))])
       (ex_input\<lparr>in_OperationSelection := Some ex_sel\<rparr>))
     = Some [(''/users'', Some (ex_item_get [''Users'']))] \<and>
   \<not> isPathItemEmpty (ex_item_get [''Users'']) \<and>
   isPathItemEmpty (filterPathItem ex_library ex_sel ''/admin'' (ex_item_get [''Admin''])) \<and>
   in_OperationSelection ex_input = None \<and>
   filterOperations ex_library
       (ex_doc [(''/users'', Some (ex_item_get [''Users''])),
                (''/admin'', Some (ex_item_get [''Admin'']))]) ex_input
     = ex_doc [(''/users'', Some (ex_item_get [''Users''])),
               (''/admin'', Some (ex_item_get [''Admin'']))]"
proof -
  let ?input = "ex_input\<lparr>in_OperationSelection := Some ex_sel\<rparr>"
  let ?paths = "[(''/users'', Some (ex_item_get [''Users''])),
                 (''/admin'', Some (ex_item_get [''Admin'']))]"
  have h1: "in_OperationSelection ?input = Some ex_sel" by (simp add: ex_input_def)
  have h2: "t_Paths (ex_doc ?paths) = Some ?paths" by (simp add: ex_doc_def)
  have h3: "in_OperationSelection ex_input = None" by (simp add: ex_input_def)
  have users: "filterPathItem ex_library ex_sel ''/users'' (ex_item_get [''Users''])
      = ex_item_get [''Users'']"
    by (simp add: ex_item_get_def ex_operation_def filterPathItem_eq keepOperation_def
        shouldIncludeOperation_def ex_sel_def)
  have admin: "filterPathItem ex_library ex_sel ''/admin'' (ex_item_get [''Admin''])
      = PathItem None None None None None None None None []"
    by (simp add: ex_item_get_def ex_operation_def filterPathItem_eq keepOperation_def
        shouldIncludeOperation_def ex_sel_def)
  have ne: "\<not> isPathItemEmpty (ex_item_get [''Users''])"
    by (simp add: isPathItemEmpty_def ex_item_get_def)
  have em: "isPathItemEmpty (PathItem None None None None None None None None [])"
    by (simp add: isPathItemEmpty_def)
  have res: "t_Paths (filterOperations ex_library (ex_doc ?paths) ?input)
      = Some [(''/users'', Some (ex_item_get [''Users'']))]"
    using ne by (simp add: filterOperations_def ex_doc_def ex_input_def users admin
        em Let_def Delete_path_def)
  from C5_no_empty_path_item[of ?input ex_sel "ex_doc ?paths" ?paths ex_library]
    C5_no_empty_path_item[of ex_input ex_sel "ex_doc ?paths" ?paths ex_library]
    h1 h2 h3 res ne admin em
  show ?thesis by simp
qed

text \<open>
  The document with the one path \<^verbatim>\<open>/empty\<close>, whose path item has no operation. With the
  default input the filter returns it with the empty path item still in the mapping;
  with an empty \<^verbatim>\<open>operationSelection\<close> block the filter deletes the path.
\<close>

theorem C5_empty_path_item_kept:
  "isPathItemEmpty (PathItem None None None None None None None None []) \<and>
   t_Paths (filterOperations ex_library
       (ex_doc [(''/empty'', Some (PathItem None None None None None None None None []))])
       ex_input)
     = Some [(''/empty'', Some (PathItem None None None None None None None None []))] \<and>
   t_Paths (filterOperations ex_library
       (ex_doc [(''/empty'', Some (PathItem None None None None None None None None []))])
       (ex_input\<lparr>in_OperationSelection := Some \<lparr>sel_IncludeTags = [], sel_ExcludeTags = [],
          sel_IncludePaths = [], sel_ExcludePaths = []\<rparr>\<rparr>))
     = Some []"
proof -
  have em: "isPathItemEmpty (PathItem None None None None None None None None [])"
    by (simp add: isPathItemEmpty_def)
  have same: "filterPathItem ex_library sel ''/empty''
      (PathItem None None None None None None None None [])
      = PathItem None None None None None None None None []" for sel
    by (simp add: filterPathItem_eq keepOperation_def)
  have kept: "t_Paths (filterOperations ex_library
       (ex_doc [(''/empty'', Some (PathItem None None None None None None None None []))])
       ex_input)
     = Some [(''/empty'', Some (PathItem None None None None None None None None []))]"
    by (simp add: filterOperations_def ex_input_def ex_doc_def)
  have gone: "t_Paths (filterOperations ex_library
       (ex_doc [(''/empty'', Some (PathItem None None None None None None None None []))])
       (ex_input\<lparr>in_OperationSelection := Some \<lparr>sel_IncludeTags = [], sel_ExcludeTags = [],
          sel_IncludePaths = [], sel_ExcludePaths = []\<rparr>\<rparr>))
     = Some []"
    by (simp add: filterOperations_def ex_doc_def ex_input_def same em Let_def Delete_path_def)
  from em kept gone show ?thesis by simp
qed

text \<open>
  Claim C8. The operation filter is idempotent: filtering the filtered document again,
  with the same configuration, gives the filtered document. The second run may meet the
  paths in any order \<open>qs\<close>: it changes nothing.
\<close>

theorem C8_filter_idempotent:
  "filterOperations C (filterOperations C spec input) input = filterOperations C spec input \<and>
   (\<forall>paths1 qs. t_Paths (filterOperations C spec input) = Some paths1 \<longrightarrow>
      set qs = set paths1 \<longrightarrow>
      filterOperations C ((filterOperations C spec input)\<lparr>t_Paths := Some qs\<rparr>) input
        = (filterOperations C spec input)\<lparr>t_Paths := Some qs\<rparr>)"
proof (cases "in_OperationSelection input")
  case None
  then show ?thesis by (simp add: filterOperations_def)
next
  case (Some sel)
  show ?thesis
  proof (cases "t_Paths spec")
    case None
    with Some show ?thesis by (simp add: filterOperations_def)
  next
    case paths: (Some paths)
    let ?spec1 = "filterOperations C spec input"
    obtain paths1 where p1: "t_Paths ?spec1 = Some paths1"
      using filterOperations_paths[OF Some paths] by blast
    have all1: "\<forall>e \<in> set paths1. settled C sel e"
      using filterOperations_settled[OF Some paths p1] by blast
    have again: "filterOperations C (?spec1\<lparr>t_Paths := Some qs\<rparr>) input
        = ?spec1\<lparr>t_Paths := Some qs\<rparr>" if "set qs = set paths1" for qs
      using that all1 by (intro filterOperations_again[OF Some]) simp
    have same: "?spec1\<lparr>t_Paths := Some paths1\<rparr> = ?spec1"
      using p1 by simp
    from again[of paths1] same have "filterOperations C ?spec1 input = ?spec1" by simp
    with again p1 show ?thesis by auto
  qed
qed

text \<open>The theorem at the same document: the second run returns the one path left.\<close>

theorem C8_filter_idempotent_witness:
  "filterOperations ex_library
     (filterOperations ex_library
        (ex_doc [(''/users'', Some (ex_item_get [''Users''])),
                 (''/admin'', Some (ex_item_get [''Admin'']))])
        (ex_input\<lparr>in_OperationSelection := Some ex_sel\<rparr>))
     (ex_input\<lparr>in_OperationSelection := Some ex_sel\<rparr>)
   = ex_doc [(''/users'', Some (ex_item_get [''Users'']))]"
proof -
  let ?input = "ex_input\<lparr>in_OperationSelection := Some ex_sel\<rparr>"
  let ?paths = "[(''/users'', Some (ex_item_get [''Users''])),
                 (''/admin'', Some (ex_item_get [''Admin'']))]"
  have users: "filterPathItem ex_library ex_sel ''/users'' (ex_item_get [''Users''])
      = ex_item_get [''Users'']"
    by (simp add: ex_item_get_def ex_operation_def filterPathItem_eq keepOperation_def
        shouldIncludeOperation_def ex_sel_def)
  have admin: "filterPathItem ex_library ex_sel ''/admin'' (ex_item_get [''Admin''])
      = PathItem None None None None None None None None []"
    by (simp add: ex_item_get_def ex_operation_def filterPathItem_eq keepOperation_def
        shouldIncludeOperation_def ex_sel_def)
  have ne: "\<not> isPathItemEmpty (ex_item_get [''Users''])"
    by (simp add: isPathItemEmpty_def ex_item_get_def)
  have em: "isPathItemEmpty (PathItem None None None None None None None None [])"
    by (simp add: isPathItemEmpty_def)
  have once: "filterOperations ex_library (ex_doc ?paths) ?input
      = ex_doc [(''/users'', Some (ex_item_get [''Users'']))]"
    using ne by (simp add: filterOperations_def ex_doc_def ex_input_def users admin
        em Let_def Delete_path_def)
  from C8_filter_idempotent[of ex_library "ex_doc ?paths" ?input] once
  show ?thesis by simp
qed

section \<open>Theorems: merging path items\<close>

text \<open>The test of the parameter loop, in terms of the name and location.\<close>

lemma mergeParameter_exists:
  "list_ex (\<lambda>existingParam.
            (case (pr_Value existingParam, pr_Value param) of
               (Some existingValue, Some paramValue) \<Rightarrow>
                 p_Name existingValue = p_Name paramValue \<and>
                 p_In existingValue = p_In paramValue
             | _ \<Rightarrow> False)) dest
        = (paramKey param \<noteq> None \<and> paramKey param \<in> paramKey ` set dest)"
proof (cases "pr_Value param")
  case None
  then show ?thesis by (simp add: list_ex_iff paramKey_def split: option.splits)
next
  case (Some a)
  have "(\<exists>e \<in> set dest. \<exists>y. pr_Value e = Some y \<and> p_Name y = p_Name a \<and> p_In y = p_In a)
      = (Some (p_Name a, p_In a) \<in> paramKey ` set dest)"
  proof
    assume "\<exists>e \<in> set dest. \<exists>y. pr_Value e = Some y \<and> p_Name y = p_Name a \<and> p_In y = p_In a"
    then obtain e y where "e \<in> set dest" "pr_Value e = Some y" "p_Name y = p_Name a"
      "p_In y = p_In a" by blast
    then have "e \<in> set dest" "paramKey e = Some (p_Name a, p_In a)"
      by (simp_all add: paramKey_def)
    then show "Some (p_Name a, p_In a) \<in> paramKey ` set dest" by force
  next
    assume "Some (p_Name a, p_In a) \<in> paramKey ` set dest"
    then obtain e where e: "e \<in> set dest" "paramKey e = Some (p_Name a, p_In a)" by force
    then obtain y where "pr_Value e = Some y" "p_Name y = p_Name a" "p_In y = p_In a"
      by (cases "pr_Value e") (auto simp: paramKey_def)
    with e(1) show "\<exists>e \<in> set dest. \<exists>y. pr_Value e = Some y \<and> p_Name y = p_Name a \<and>
        p_In y = p_In a" by blast
  qed
  moreover have "list_ex (\<lambda>existingParam.
            (case (pr_Value existingParam, pr_Value param) of
               (Some existingValue, Some paramValue) \<Rightarrow>
                 p_Name existingValue = p_Name paramValue \<and>
                 p_In existingValue = p_In paramValue
             | _ \<Rightarrow> False)) dest
      = (\<exists>e \<in> set dest. \<exists>y. pr_Value e = Some y \<and> p_Name y = p_Name a \<and> p_In y = p_In a)"
    unfolding list_ex_iff Some by (rule bex_cong[OF refl]) (simp split: option.splits)
  ultimately show ?thesis by (simp add: Some paramKey_def)
qed

lemma mergeParameter_eq:
  "mergeParameter param dest =
     (if paramKey param \<noteq> None \<and> paramKey param \<in> paramKey ` set dest then dest
      else dest @ [param])"
  unfolding mergeParameter_def mergeParameter_exists by (simp add: Let_def)

lemma fold_mergeParameter:
  "\<exists>added. fold mergeParameter src dest = dest @ added \<and>
     set added \<subseteq> set src \<and>
     (\<forall>p \<in> set src. paramKey p = None \<longrightarrow> p \<in> set added) \<and>
     (\<forall>p \<in> set src. paramKey p \<in> paramKey ` set (dest @ added)) \<and>
     (\<forall>p \<in> set added. paramKey p \<noteq> None \<longrightarrow> paramKey p \<notin> paramKey ` set dest) \<and>
     distinct (filter (\<lambda>k. k \<noteq> None) (map paramKey added))"
proof (induction src arbitrary: dest)
  case Nil
  then show ?case by simp
next
  case (Cons p src)
  show ?case
  proof (cases "paramKey p \<noteq> None \<and> paramKey p \<in> paramKey ` set dest")
    case True
    from Cons.IH[of dest] obtain added where a:
      "fold mergeParameter src dest = dest @ added" "set added \<subseteq> set src"
      "\<forall>p \<in> set src. paramKey p = None \<longrightarrow> p \<in> set added"
      "\<forall>p \<in> set src. paramKey p \<in> paramKey ` set (dest @ added)"
      "\<forall>p \<in> set added. paramKey p \<noteq> None \<longrightarrow> paramKey p \<notin> paramKey ` set dest"
      "distinct (filter (\<lambda>k. k \<noteq> None) (map paramKey added))" by blast
    from True have "mergeParameter p dest = dest"
      unfolding mergeParameter_eq by (rule if_P)
    then have "fold mergeParameter (p # src) dest = dest @ added"
      using a(1) by simp
    moreover have "set added \<subseteq> set (p # src)" using a(2) by auto
    moreover have "\<forall>q \<in> set (p # src). paramKey q = None \<longrightarrow> q \<in> set added"
      using True a(3) by auto
    moreover have "\<forall>q \<in> set (p # src). paramKey q \<in> paramKey ` set (dest @ added)"
      using True a(4) by auto
    ultimately show ?thesis
      by (intro exI[of _ added] conjI a(5) a(6))
  next
    case False
    from Cons.IH[of "dest @ [p]"] obtain added where a:
      "fold mergeParameter src (dest @ [p]) = (dest @ [p]) @ added" "set added \<subseteq> set src"
      "\<forall>q \<in> set src. paramKey q = None \<longrightarrow> q \<in> set added"
      "\<forall>q \<in> set src. paramKey q \<in> paramKey ` set ((dest @ [p]) @ added)"
      "\<forall>q \<in> set added. paramKey q \<noteq> None \<longrightarrow> paramKey q \<notin> paramKey ` set (dest @ [p])"
      "distinct (filter (\<lambda>k. k \<noteq> None) (map paramKey added))" by blast
    from False have "mergeParameter p dest = dest @ [p]"
      unfolding mergeParameter_eq by (rule if_not_P)
    then have 1: "fold mergeParameter (p # src) dest = dest @ (p # added)"
      using a(1) by simp
    have 2: "set (p # added) \<subseteq> set (p # src)" using a(2) by auto
    have 3: "\<forall>q \<in> set (p # src). paramKey q = None \<longrightarrow> q \<in> set (p # added)"
      using a(3) by auto
    have 4: "\<forall>q \<in> set (p # src). paramKey q \<in> paramKey ` set (dest @ (p # added))"
      using a(4) by auto
    have 5: "\<forall>q \<in> set (p # added). paramKey q \<noteq> None \<longrightarrow> paramKey q \<notin> paramKey ` set dest"
      using False a(5) by auto
    have 6: "distinct (filter (\<lambda>k. k \<noteq> None) (map paramKey (p # added)))"
      using a(5) a(6) by auto
    show ?thesis
      by (rule exI[of _ "p # added"]) (intro conjI 1 2 3 4 5 6)
  qed
qed

lemma mergePathItem_selectors:
  "pi_Get (mergePathItem dest src) = (case pi_Get dest of Some op \<Rightarrow> Some op | None \<Rightarrow> pi_Get src)"
  "pi_Post (mergePathItem dest src) = (case pi_Post dest of Some op \<Rightarrow> Some op | None \<Rightarrow> pi_Post src)"
  "pi_Put (mergePathItem dest src) = (case pi_Put dest of Some op \<Rightarrow> Some op | None \<Rightarrow> pi_Put src)"
  "pi_Delete (mergePathItem dest src) = (case pi_Delete dest of Some op \<Rightarrow> Some op | None \<Rightarrow> pi_Delete src)"
  "pi_Patch (mergePathItem dest src) = (case pi_Patch dest of Some op \<Rightarrow> Some op | None \<Rightarrow> pi_Patch src)"
  "pi_Head (mergePathItem dest src) = (case pi_Head dest of Some op \<Rightarrow> Some op | None \<Rightarrow> pi_Head src)"
  "pi_Options (mergePathItem dest src) = (case pi_Options dest of Some op \<Rightarrow> Some op | None \<Rightarrow> pi_Options src)"
  "pi_Trace (mergePathItem dest src) = (case pi_Trace dest of Some op \<Rightarrow> Some op | None \<Rightarrow> pi_Trace src)"
  "pi_Parameters (mergePathItem dest src) = fold mergeParameter (pi_Parameters src) (pi_Parameters dest)"
  by (cases dest; cases src; simp split: option.splits)+

lemma Find_Set_path:
  "Find (Set_path k v paths) k' = (if k' = k then v else Find paths k')"
  by (simp add: Find_def Set_path_def update_conv' split: option.splits)

lemma keys_Set_path': "fst ` set (Set_path k v paths) = insert k (fst ` set paths)"
  by (simp add: Set_path_def dom_update)

lemma distinct_Set_path:
  "distinct (map fst paths) \<Longrightarrow> distinct (map fst (Set_path k v paths))"
  by (simp add: Set_path_def distinct_update)

lemma mergePath_Some:
  "mergePath (path, Some src) masterPaths =
     Inr (Set_path path
            (Some (case Find masterPaths path of
                     Some dest \<Rightarrow> mergePathItem dest src
                   | None \<Rightarrow> src)) masterPaths)"
  by (simp add: mergePath_def split: option.splits)

lemma mergePaths_result:
  assumes "distinct (map fst paths)" and "\<forall>e \<in> set paths. snd e \<noteq> None"
  shows "\<exists>masterPaths'. mergePaths paths masterPaths = Inr masterPaths' \<and>
     (distinct (map fst masterPaths) \<longrightarrow> distinct (map fst masterPaths')) \<and>
     fst ` set masterPaths' = fst ` set masterPaths \<union> fst ` set paths \<and>
     (\<forall>path. path \<notin> fst ` set paths \<longrightarrow> Find masterPaths' path = Find masterPaths path) \<and>
     (\<forall>path src. (path, Some src) \<in> set paths \<longrightarrow>
        Find masterPaths' path =
          Some (case Find masterPaths path of
                  Some dest \<Rightarrow> mergePathItem dest src
                | None \<Rightarrow> src))"
  using assms
proof (induction paths arbitrary: masterPaths)
  case Nil
  then show ?case by simp
next
  case (Cons e paths)
  from Cons.prems obtain path src where e: "e = (path, Some src)"
    by (cases e) auto
  let ?v = "Some (case Find masterPaths path of
                     Some dest \<Rightarrow> mergePathItem dest src
                   | None \<Rightarrow> src)"
  let ?m1 = "Set_path path ?v masterPaths"
  from Cons.prems e have d: "distinct (map fst paths)" and notin: "path \<notin> fst ` set paths"
    and nn: "\<forall>e \<in> set paths. snd e \<noteq> None" by auto
  from Cons.IH[OF d nn, of ?m1] obtain m' where m':
    "mergePaths paths ?m1 = Inr m'"
    "distinct (map fst ?m1) \<longrightarrow> distinct (map fst m')"
    "fst ` set m' = fst ` set ?m1 \<union> fst ` set paths"
    "\<forall>p. p \<notin> fst ` set paths \<longrightarrow> Find m' p = Find ?m1 p"
    "\<forall>p s. (p, Some s) \<in> set paths \<longrightarrow>
        Find m' p = Some (case Find ?m1 p of Some dest \<Rightarrow> mergePathItem dest s | None \<Rightarrow> s)"
    by blast
  have 1: "mergePaths (e # paths) masterPaths = Inr m'"
    using m'(1) by (simp add: e mergePath_Some)
  have 2: "distinct (map fst masterPaths) \<longrightarrow> distinct (map fst m')"
    using m'(2) by (simp add: distinct_Set_path)
  have 3: "fst ` set m' = fst ` set masterPaths \<union> fst ` set (e # paths)"
    using m'(3) by (simp add: keys_Set_path' e)
  have 4: "\<forall>p. p \<notin> fst ` set (e # paths) \<longrightarrow> Find m' p = Find masterPaths p"
    using m'(4) by (simp add: e Find_Set_path)
  have 5: "\<forall>p s. (p, Some s) \<in> set (e # paths) \<longrightarrow>
        Find m' p = Some (case Find masterPaths p of
                            Some dest \<Rightarrow> mergePathItem dest s | None \<Rightarrow> s)"
  proof (intro allI impI)
    fix p s assume mem: "(p, Some s) \<in> set (e # paths)"
    show "Find m' p = Some (case Find masterPaths p of
                            Some dest \<Rightarrow> mergePathItem dest s | None \<Rightarrow> s)"
    proof (cases "(p, Some s) \<in> set paths")
      case True
      then have "p \<noteq> path" using notin by force
      with True m'(5) show ?thesis by (simp add: Find_Set_path)
    next
      case False
      with mem e have ps: "p = path" "s = src" by auto
      from notin m'(4) show ?thesis unfolding ps by (simp add: Find_Set_path)
    qed
  qed
  from 1 2 3 4 5 show ?case by blast
qed

text \<open>
  Claim C3. \<^verbatim>\<open>mergeSpec\<close> merges the paths of the incoming document first, with the loop
  \<open>mergePaths\<close>. For a document without a nil path item:

  \<^item> \<open>mergeSpec\<close> returns a composite when the document has no components (it can only
    fail in the merge of the components);
  \<^item> in the composite it returns, a path of the document that the composite had already
    holds the merge of the existing path item with the incoming one, and the composite
    still has one entry for each key.

  In the merged path item each method has the existing operation if there is one, and
  the incoming operation otherwise. Its parameters are the existing ones, unchanged and
  in front, followed by the incoming ones whose name and location no earlier entry has:
  every name and location of the incoming list occurs in the result, none is added that
  the existing list has, and none is added twice. (An incoming parameter reference
  without a value has no name and location and is always added.)
\<close>

theorem C3_merge_path_items:
  "(t_Paths spec = Some paths \<longrightarrow> distinct (map fst paths) \<longrightarrow>
    (\<forall>e \<in> set paths. snd e \<noteq> None) \<longrightarrow>
      (t_Components spec = None \<longrightarrow> (\<exists>master'. mergeSpec M h spec input master = Inr master')) \<and>
      (\<forall>master'. mergeSpec M h spec input master = Inr master' \<longrightarrow>
         (distinct (map fst (m_Paths master)) \<longrightarrow> distinct (map fst (m_Paths master'))) \<and>
         (\<forall>path incoming existing.
            (path, Some incoming) \<in> set paths \<longrightarrow>
            Find (m_Paths master) path = Some existing \<longrightarrow>
            Find (m_Paths master') path = Some (mergePathItem existing incoming)))) \<and>
   pi_Get (mergePathItem dest src) =
     (case pi_Get dest of Some op \<Rightarrow> Some op | None \<Rightarrow> pi_Get src) \<and>
   pi_Post (mergePathItem dest src) =
     (case pi_Post dest of Some op \<Rightarrow> Some op | None \<Rightarrow> pi_Post src) \<and>
   pi_Put (mergePathItem dest src) =
     (case pi_Put dest of Some op \<Rightarrow> Some op | None \<Rightarrow> pi_Put src) \<and>
   pi_Delete (mergePathItem dest src) =
     (case pi_Delete dest of Some op \<Rightarrow> Some op | None \<Rightarrow> pi_Delete src) \<and>
   pi_Patch (mergePathItem dest src) =
     (case pi_Patch dest of Some op \<Rightarrow> Some op | None \<Rightarrow> pi_Patch src) \<and>
   pi_Head (mergePathItem dest src) =
     (case pi_Head dest of Some op \<Rightarrow> Some op | None \<Rightarrow> pi_Head src) \<and>
   pi_Options (mergePathItem dest src) =
     (case pi_Options dest of Some op \<Rightarrow> Some op | None \<Rightarrow> pi_Options src) \<and>
   pi_Trace (mergePathItem dest src) =
     (case pi_Trace dest of Some op \<Rightarrow> Some op | None \<Rightarrow> pi_Trace src) \<and>
   (\<exists>added.
      pi_Parameters (mergePathItem dest src) = pi_Parameters dest @ added \<and>
      set added \<subseteq> set (pi_Parameters src) \<and>
      (\<forall>p \<in> set (pi_Parameters src). paramKey p = None \<longrightarrow> p \<in> set added) \<and>
      (\<forall>p \<in> set (pi_Parameters src).
         paramKey p \<in> paramKey ` set (pi_Parameters (mergePathItem dest src))) \<and>
      (\<forall>p \<in> set added.
         paramKey p \<noteq> None \<longrightarrow> paramKey p \<notin> paramKey ` set (pi_Parameters dest)) \<and>
      distinct (filter (\<lambda>k. k \<noteq> None) (map paramKey added)))"
proof -
  have paths: "t_Paths spec = Some paths \<longrightarrow> distinct (map fst paths) \<longrightarrow>
    (\<forall>e \<in> set paths. snd e \<noteq> None) \<longrightarrow>
      (t_Components spec = None \<longrightarrow> (\<exists>master'. mergeSpec M h spec input master = Inr master')) \<and>
      (\<forall>master'. mergeSpec M h spec input master = Inr master' \<longrightarrow>
         (distinct (map fst (m_Paths master)) \<longrightarrow> distinct (map fst (m_Paths master'))) \<and>
         (\<forall>path incoming existing.
            (path, Some incoming) \<in> set paths \<longrightarrow>
            Find (m_Paths master) path = Some existing \<longrightarrow>
            Find (m_Paths master') path = Some (mergePathItem existing incoming)))"
  proof (intro impI)
    assume sp: "t_Paths spec = Some paths"
      and d: "distinct (map fst paths)" and nn: "\<forall>e \<in> set paths. snd e \<noteq> None"
    from mergePaths_result[OF d nn, of "m_Paths master"] obtain m' where m':
      "mergePaths paths (m_Paths master) = Inr m'"
      "distinct (map fst (m_Paths master)) \<longrightarrow> distinct (map fst m')"
      "\<forall>path src. (path, Some src) \<in> set paths \<longrightarrow>
        Find m' path = Some (case Find (m_Paths master) path of
                  Some dest \<Rightarrow> mergePathItem dest src | None \<Rightarrow> src)"
      by blast
    have 3: "\<forall>path incoming existing.
            (path, Some incoming) \<in> set paths \<longrightarrow>
            Find (m_Paths master) path = Some existing \<longrightarrow>
            Find m' path = Some (mergePathItem existing incoming)"
      using m'(3) by fastforce
    have returns: "t_Components spec = None \<longrightarrow>
        (\<exists>master'. mergeSpec M h spec input master = Inr master')"
      by (simp add: mergeSpec_def sp m'(1))
    have paths': "m_Paths master' = m'" if "mergeSpec M h spec input master = Inr master'"
      for master'
      using that by (auto simp: mergeSpec_def sp m'(1) split: sum.splits)
    have result: "\<forall>master'. mergeSpec M h spec input master = Inr master' \<longrightarrow>
         (distinct (map fst (m_Paths master)) \<longrightarrow> distinct (map fst (m_Paths master'))) \<and>
         (\<forall>path incoming existing.
            (path, Some incoming) \<in> set paths \<longrightarrow>
            Find (m_Paths master) path = Some existing \<longrightarrow>
            Find (m_Paths master') path = Some (mergePathItem existing incoming))"
      using m'(2) 3 by (simp add: paths')
    from returns result
    show "(t_Components spec = None \<longrightarrow> (\<exists>master'. mergeSpec M h spec input master = Inr master')) \<and>
      (\<forall>master'. mergeSpec M h spec input master = Inr master' \<longrightarrow>
         (distinct (map fst (m_Paths master)) \<longrightarrow> distinct (map fst (m_Paths master'))) \<and>
         (\<forall>path incoming existing.
            (path, Some incoming) \<in> set paths \<longrightarrow>
            Find (m_Paths master) path = Some existing \<longrightarrow>
            Find (m_Paths master') path = Some (mergePathItem existing incoming)))"
      by (rule conjI)
  qed
  have params: "\<exists>added.
      pi_Parameters (mergePathItem dest src) = pi_Parameters dest @ added \<and>
      set added \<subseteq> set (pi_Parameters src) \<and>
      (\<forall>p \<in> set (pi_Parameters src). paramKey p = None \<longrightarrow> p \<in> set added) \<and>
      (\<forall>p \<in> set (pi_Parameters src).
         paramKey p \<in> paramKey ` set (pi_Parameters (mergePathItem dest src))) \<and>
      (\<forall>p \<in> set added.
         paramKey p \<noteq> None \<longrightarrow> paramKey p \<notin> paramKey ` set (pi_Parameters dest)) \<and>
      distinct (filter (\<lambda>k. k \<noteq> None) (map paramKey added))"
  proof -
    from fold_mergeParameter[of "pi_Parameters src" "pi_Parameters dest"]
    obtain added where a:
      "fold mergeParameter (pi_Parameters src) (pi_Parameters dest) = pi_Parameters dest @ added"
      "set added \<subseteq> set (pi_Parameters src)"
      "\<forall>p \<in> set (pi_Parameters src). paramKey p = None \<longrightarrow> p \<in> set added"
      "\<forall>p \<in> set (pi_Parameters src). paramKey p \<in> paramKey ` set (pi_Parameters dest @ added)"
      "\<forall>p \<in> set added. paramKey p \<noteq> None \<longrightarrow> paramKey p \<notin> paramKey ` set (pi_Parameters dest)"
      "distinct (filter (\<lambda>k. k \<noteq> None) (map paramKey added))" by blast
    have eq: "pi_Parameters (mergePathItem dest src) = pi_Parameters dest @ added"
      using a(1) by (simp add: mergePathItem_selectors)
    have 4: "\<forall>p \<in> set (pi_Parameters src).
         paramKey p \<in> paramKey ` set (pi_Parameters (mergePathItem dest src))"
      using a(4) unfolding eq .
    show ?thesis
      by (rule exI[of _ added]) (intro conjI eq a(2) a(3) 4 a(5) a(6))
  qed
  show ?thesis
    by (intro conjI paths params mergePathItem_selectors)
qed

text \<open>
  The theorem at the example of the specification: a document with \<^verbatim>\<open>/users\<close> and GET,
  merged by \<open>mergeSpec\<close> into a composite that has \<^verbatim>\<open>/users\<close> with POST, gives a composite
  with one \<^verbatim>\<open>/users\<close> that has both. The existing parameter \<^verbatim>\<open>id\<close> wins over the incoming
  one, and the incoming \<^verbatim>\<open>limit\<close> is added.
\<close>

theorem C3_merge_path_items_witness:
  "t_Paths (ex_doc [(''/users'', Some (PathItem (Some (ex_operation [])) None None None None
       None None None [ex_param ''id'' ''path'' ''incoming'', ex_param ''limit'' ''query'' ''max'']))])
     = Some [(''/users'', Some (PathItem (Some (ex_operation [])) None None None None
       None None None [ex_param ''id'' ''path'' ''incoming'', ex_param ''limit'' ''query'' ''max'']))] \<and>
   distinct (map fst [(''/users'', Some (PathItem (Some (ex_operation [])) None None None None
       None None None [ex_param ''id'' ''path'' ''incoming'', ex_param ''limit'' ''query'' ''max'']))]) \<and>
   Find (m_Paths (ex_master
       [(''/users'', Some (PathItem None (Some (ex_operation [''mine''])) None None None None None
          None [ex_param ''id'' ''path'' ''existing'']))] [])) ''/users''
     = Some (PathItem None (Some (ex_operation [''mine''])) None None None None None
          None [ex_param ''id'' ''path'' ''existing'']) \<and>
   mergeSpec ex_marshal ex_heap
     (ex_doc [(''/users'', Some (PathItem (Some (ex_operation [])) None None None None None None
        None [ex_param ''id'' ''path'' ''incoming'', ex_param ''limit'' ''query'' ''max'']))])
     ex_input
     (ex_master
       [(''/users'', Some (PathItem None (Some (ex_operation [''mine''])) None None None None None
          None [ex_param ''id'' ''path'' ''existing'']))] [])
   = Inr (ex_master
       [(''/users'', Some (PathItem (Some (ex_operation [])) (Some (ex_operation [''mine'']))
          None None None None None None
          [ex_param ''id'' ''path'' ''existing'', ex_param ''limit'' ''query'' ''max'']))] [])"
  using C3_merge_path_items [of
     "ex_doc [(''/users'', Some (PathItem (Some (ex_operation [])) None None None None None None
        None [ex_param ''id'' ''path'' ''incoming'', ex_param ''limit'' ''query'' ''max'']))]"
     "[(''/users'', Some (PathItem (Some (ex_operation [])) None None None None None None None
        [ex_param ''id'' ''path'' ''incoming'', ex_param ''limit'' ''query'' ''max'']))]"
     ex_marshal ex_heap ex_input
     "ex_master
       [(''/users'', Some (PathItem None (Some (ex_operation [''mine''])) None None None None None
          None [ex_param ''id'' ''path'' ''existing'']))] []"
     "PathItem None (Some (ex_operation [''mine''])) None None None None None
        None [ex_param ''id'' ''path'' ''existing'']"
     "PathItem (Some (ex_operation [])) None None None None None None None
        [ex_param ''id'' ''path'' ''incoming'', ex_param ''limit'' ''query'' ''max'']"]
  by (simp add: mergeSpec_def mergePath_def Find_def Set_path_def mergeParameter_def
      ex_param_def ex_doc_def ex_master_def mergeTags_def)

section \<open>Theorems: merging schemas\<close>

text \<open>The schema loop when nothing collides, and when something does.\<close>

lemma mergeSchemas_ok:
  assumes "distinct (map fst incoming)"
    and "\<forall>name s existing. (name, s) \<in> set incoming \<longrightarrow> map_of masterSchemas name = Some existing
           \<longrightarrow> schemasEqual M h existing s \<or> dp"
  shows "\<exists>masterSchemas'. mergeSchemas M h dp incoming masterSchemas = Inr masterSchemas' \<and>
     map_of masterSchemas' = map_of incoming ++ map_of masterSchemas \<and>
     (distinct (map fst masterSchemas) \<longrightarrow> distinct (map fst masterSchemas'))"
  using assms
proof (induction incoming arbitrary: masterSchemas)
  case Nil
  then show ?case by simp
next
  case (Cons e incoming)
  obtain n s where e: "e = (n, s)" by (cases e)
  from Cons.prems(1) e have d: "distinct (map fst incoming)" and notin: "n \<notin> fst ` set incoming"
    by auto
  show ?case
  proof (cases "map_of masterSchemas n")
    case None
    let ?m1 = "AList.update n s masterSchemas"
    have m1: "map_of ?m1 = (map_of masterSchemas)(n \<mapsto> s)" by (simp add: update_conv')
    have step: "mergeSchema M h dp e masterSchemas = Inr ?m1"
      by (simp add: mergeSchema_def e None)
    have pre: "\<forall>name s' existing. (name, s') \<in> set incoming \<longrightarrow> map_of ?m1 name = Some existing
           \<longrightarrow> schemasEqual M h existing s' \<or> dp"
    proof (intro allI impI)
      fix name s' existing
      assume mem: "(name, s') \<in> set incoming" and look: "map_of ?m1 name = Some existing"
      from mem notin have "name \<noteq> n" by force
      with look have "map_of masterSchemas name = Some existing" by (simp add: m1)
      with Cons.prems(2) mem show "schemasEqual M h existing s' \<or> dp" by (auto simp: e)
    qed
    from Cons.IH[OF d pre] obtain m' where m':
      "mergeSchemas M h dp incoming ?m1 = Inr m'"
      "map_of m' = map_of incoming ++ map_of ?m1"
      "distinct (map fst ?m1) \<longrightarrow> distinct (map fst m')" by blast
    have 1: "mergeSchemas M h dp (e # incoming) masterSchemas = Inr m'"
      using step m'(1) by simp
    have "n \<notin> dom (map_of incoming)" using notin by (simp add: dom_map_of_conv_image_fst)
    then have inc_n: "map_of incoming n = None" by blast
    have 2: "map_of m' = map_of (e # incoming) ++ map_of masterSchemas"
      using None inc_n by (auto simp: m'(2) m1 e fun_eq_iff map_add_def split: option.splits)
    have 3: "distinct (map fst masterSchemas) \<longrightarrow> distinct (map fst m')"
      using m'(3) by (simp add: distinct_update)
    show ?thesis by (rule exI[of _ m']) (intro conjI 1 2 3)
  next
    case (Some existing)
    from Cons.prems(2) Some have "schemasEqual M h existing s \<or> dp" by (simp add: e)
    then have step: "mergeSchema M h dp e masterSchemas = Inr masterSchemas"
      by (auto simp: mergeSchema_def e Some)
    have pre: "\<forall>name s' existing. (name, s') \<in> set incoming \<longrightarrow>
           map_of masterSchemas name = Some existing \<longrightarrow> schemasEqual M h existing s' \<or> dp"
      using Cons.prems(2) by (auto simp: e)
    from Cons.IH[OF d pre] obtain m' where m':
      "mergeSchemas M h dp incoming masterSchemas = Inr m'"
      "map_of m' = map_of incoming ++ map_of masterSchemas"
      "distinct (map fst masterSchemas) \<longrightarrow> distinct (map fst m')" by blast
    have 1: "mergeSchemas M h dp (e # incoming) masterSchemas = Inr m'"
      using step m'(1) by simp
    have 2: "map_of m' = map_of (e # incoming) ++ map_of masterSchemas"
      using Some by (auto simp: m'(2) e fun_eq_iff map_add_def split: option.splits)
    show ?thesis by (rule exI[of _ m']) (intro conjI 1 2 m'(3))
  qed
qed

lemma mergeSchemas_collision:
  assumes "distinct (map fst incoming)"
    and "\<exists>name. collides M h incoming masterSchemas name"
  shows "\<exists>name. mergeSchemas M h False incoming masterSchemas = Inl (SchemaCollision name) \<and>
     collides M h incoming masterSchemas name"
  using assms
proof (induction incoming arbitrary: masterSchemas)
  case Nil
  then show ?case by (simp add: collides_def)
next
  case (Cons e incoming)
  obtain n s where e: "e = (n, s)" by (cases e)
  from Cons.prems(1) e have d: "distinct (map fst incoming)" and notin: "n \<notin> fst ` set incoming"
    by auto
  from Cons.prems(2) obtain c sc ec where c: "(c, sc) \<in> set (e # incoming)"
    "map_of masterSchemas c = Some ec" "\<not> schemasEqual M h ec sc"
    unfolding collides_def by blast
  show ?case
  proof (cases "map_of masterSchemas n")
    case None
    let ?m1 = "AList.update n s masterSchemas"
    have m1: "map_of ?m1 = (map_of masterSchemas)(n \<mapsto> s)" by (simp add: update_conv')
    have step: "mergeSchema M h False e masterSchemas = Inr ?m1"
      by (simp add: mergeSchema_def e None)
    from c None e have cin: "(c, sc) \<in> set incoming" by auto
    with notin have cn: "c \<noteq> n" by force
    with c(2) have "map_of ?m1 c = Some ec" by (simp add: m1)
    with cin c(3) have "\<exists>name. collides M h incoming ?m1 name" unfolding collides_def by blast
    from Cons.IH[OF d this] obtain name where name:
      "mergeSchemas M h False incoming ?m1 = Inl (SchemaCollision name)"
      "collides M h incoming ?m1 name" by blast
    from name(2) obtain s' ex' where x: "(name, s') \<in> set incoming"
      "map_of ?m1 name = Some ex'" "\<not> schemasEqual M h ex' s'"
      unfolding collides_def by blast
    from x(1) notin have "name \<noteq> n" by force
    with x(2) have "map_of masterSchemas name = Some ex'" by (simp add: m1)
    with x have col: "collides M h (e # incoming) masterSchemas name"
      unfolding collides_def by auto
    have "mergeSchemas M h False (e # incoming) masterSchemas = Inl (SchemaCollision name)"
      using step name(1) by simp
    with col show ?thesis by blast
  next
    case (Some existing)
    show ?thesis
    proof (cases "schemasEqual M h existing s")
      case False
      have "mergeSchemas M h False (e # incoming) masterSchemas = Inl (SchemaCollision n)"
        by (simp add: mergeSchema_def e Some False)
      moreover have "collides M h (e # incoming) masterSchemas n"
        unfolding collides_def using Some False e by auto
      ultimately show ?thesis by blast
    next
      case True
      have step: "mergeSchema M h False e masterSchemas = Inr masterSchemas"
        by (simp add: mergeSchema_def e Some True)
      have cin: "(c, sc) \<in> set incoming"
      proof (rule ccontr)
        assume "(c, sc) \<notin> set incoming"
        with c(1) e have "c = n" "sc = s" by auto
        with c(2) c(3) Some True show False by simp
      qed
      with c have "\<exists>name. collides M h incoming masterSchemas name"
        unfolding collides_def by blast
      from Cons.IH[OF d this] obtain name where name:
        "mergeSchemas M h False incoming masterSchemas = Inl (SchemaCollision name)"
        "collides M h incoming masterSchemas name" by blast
      from name(2) have col: "collides M h (e # incoming) masterSchemas name"
        unfolding collides_def by auto
      have "mergeSchemas M h False (e # incoming) masterSchemas = Inl (SchemaCollision name)"
        using step name(1) by simp
      with col show ?thesis by blast
    qed
  qed
qed

lemma mergeSpec_paths_ok:
  assumes "\<forall>paths. t_Paths spec = Some paths \<longrightarrow>
             distinct (map fst paths) \<and> (\<forall>e \<in> set paths. snd e \<noteq> None)"
  shows "\<exists>paths'. (case t_Paths spec of
              None \<Rightarrow> Inr (m_Paths master)
            | Some paths \<Rightarrow> mergePaths paths (m_Paths master)) = Inr paths'"
proof (cases "t_Paths spec")
  case None
  then show ?thesis by simp
next
  case (Some paths)
  with assms have "distinct (map fst paths)" "\<forall>e \<in> set paths. snd e \<noteq> None" by auto
  from mergePaths_result[OF this, of "m_Paths master"] Some show ?thesis by auto
qed

text \<open>
  Claim C1. \<open>collides\<close> says that the incoming document has a schema under a name that
  the composite has with a definition that \<open>schemasEqual\<close> tells apart. For a document
  with components and without a nil path item:

  \<^item> without a dispute prefix, if some schema collides then \<open>mergeSpec\<close> fails with the
    collision error, and the error names a schema that collides (the one that collides,
    when there is one; the first the loop meets, when there are several);
  \<^item> if no schema collides, \<open>mergeSpec\<close> succeeds and the composite has, under each name it
    had, the schema it had (\<open>m ++ m'\<close> takes the value of \<open>m'\<close> where it has one), under
    each other name the incoming schema, and one entry for each name;
  \<^item> \<open>schemasEqual\<close> compares the reference strings when both are non-empty, and the
    serialised forms otherwise.
\<close>

theorem C1_schema_collision:
  assumes comps: "t_Components spec = Some components"
    and paths: "\<forall>paths. t_Paths spec = Some paths \<longrightarrow>
                  distinct (map fst paths) \<and> (\<forall>e \<in> set paths. snd e \<noteq> None)"
    and dist: "distinct (map fst (c_Schemas components))"
  shows "(\<not> hasDisputePrefix input \<longrightarrow>
       (\<exists>name. collides M h (c_Schemas components) (c_Schemas (m_Components master)) name) \<longrightarrow>
       (\<exists>name. mergeSpec M h spec input master = Inl (SchemaCollision name) \<and>
          collides M h (c_Schemas components) (c_Schemas (m_Components master)) name)) \<and>
     ((\<forall>name. \<not> collides M h (c_Schemas components) (c_Schemas (m_Components master)) name) \<longrightarrow>
       (\<exists>master'. mergeSpec M h spec input master = Inr master' \<and>
          map_of (c_Schemas (m_Components master')) =
            map_of (c_Schemas components) ++ map_of (c_Schemas (m_Components master)) \<and>
          (distinct (map fst (c_Schemas (m_Components master))) \<longrightarrow>
             distinct (map fst (c_Schemas (m_Components master')))))) \<and>
     schemasEqual M h (Some a) (Some b) =
       (if sr_Ref (schemaRefs h a) \<noteq> [] \<and> sr_Ref (schemaRefs h b) \<noteq> []
        then sr_Ref (schemaRefs h a) = sr_Ref (schemaRefs h b)
        else M h a = M h b)"
proof -
  let ?inc = "c_Schemas components"
  let ?ms = "c_Schemas (m_Components master)"
  from mergeSpec_paths_ok[OF paths, of master] obtain paths' where p':
    "(case t_Paths spec of
        None \<Rightarrow> Inr (m_Paths master)
      | Some paths \<Rightarrow> mergePaths paths (m_Paths master)) = Inr paths'" by blast
  have fail: "\<exists>name. mergeSpec M h spec input master = Inl (SchemaCollision name) \<and>
          collides M h ?inc ?ms name"
    if nd: "\<not> hasDisputePrefix input" and col: "\<exists>name. collides M h ?inc ?ms name"
  proof -
    from mergeSchemas_collision[OF dist col] obtain name where name:
      "mergeSchemas M h False ?inc ?ms = Inl (SchemaCollision name)"
      "collides M h ?inc ?ms name" by blast
    have "mergeSpec M h spec input master = Inl (SchemaCollision name)"
      using p' name(1) nd by (simp add: mergeSpec_def comps mergeComponents_def)
    with name(2) show ?thesis by blast
  qed
  have ok: "\<exists>master'. mergeSpec M h spec input master = Inr master' \<and>
          map_of (c_Schemas (m_Components master')) = map_of ?inc ++ map_of ?ms \<and>
          (distinct (map fst ?ms) \<longrightarrow> distinct (map fst (c_Schemas (m_Components master'))))"
    if nocol: "\<forall>name. \<not> collides M h ?inc ?ms name"
  proof -
    from nocol have pre: "\<forall>name s existing. (name, s) \<in> set ?inc \<longrightarrow>
        map_of ?ms name = Some existing \<longrightarrow>
        schemasEqual M h existing s \<or> hasDisputePrefix input"
      unfolding collides_def by blast
    from mergeSchemas_ok[OF dist pre] obtain ms' where ms':
      "mergeSchemas M h (hasDisputePrefix input) ?inc ?ms = Inr ms'"
      "map_of ms' = map_of ?inc ++ map_of ?ms"
      "distinct (map fst ?ms) \<longrightarrow> distinct (map fst ms')" by blast
    obtain master' where m': "mergeSpec M h spec input master = Inr master'"
      and s': "c_Schemas (m_Components master') = ms'"
      using p' ms'(1) by (simp add: mergeSpec_def comps mergeComponents_def)
    show ?thesis
      by (rule exI[of _ master']) (simp add: m' s' ms'(2) ms'(3))
  qed
  have eq: "schemasEqual M h (Some a) (Some b) =
       (if sr_Ref (schemaRefs h a) \<noteq> [] \<and> sr_Ref (schemaRefs h b) \<noteq> []
        then sr_Ref (schemaRefs h a) = sr_Ref (schemaRefs h b)
        else M h a = M h b)"
    by (simp add: schemasEqual_def)
  from fail ok eq show ?thesis by blast
qed

text \<open>
  The theorem at two documents that define \<^verbatim>\<open>User\<close>, with no prefix. The composite has
  \<^verbatim>\<open>User\<close> at address 0. The schema at address 1 differs from it: the merge fails and
  names \<^verbatim>\<open>User\<close>. The schema at address 2 is another object with the same content: the
  merge succeeds and the composite keeps its \<^verbatim>\<open>User\<close>.
\<close>

theorem C1_schema_collision_witness:
  "mergeSpec ex_marshal ex_heap
     ((ex_doc [])\<lparr>t_Components := Some (ex_components [(''User'', Some 1)])\<rparr>) ex_input
     (ex_master [] [(''User'', Some 0)])
     = Inl (SchemaCollision ''User'') \<and>
   mergeSpec ex_marshal ex_heap
     ((ex_doc [])\<lparr>t_Components := Some (ex_components [(''User'', Some 2)])\<rparr>) ex_input
     (ex_master [] [(''User'', Some 0)])
     = Inr (ex_master [] [(''User'', Some 0)])"
proof -
  have 1: "mergeSpec ex_marshal ex_heap
     ((ex_doc [])\<lparr>t_Components := Some (ex_components [(''User'', Some 1)])\<rparr>) ex_input
     (ex_master [] [(''User'', Some 0)]) = Inl (SchemaCollision ''User'')"
    using C1_schema_collision [of
        "(ex_doc [])\<lparr>t_Components := Some (ex_components [(''User'', Some 1)])\<rparr>"
        "ex_components [(''User'', Some 1)]" ex_input ex_marshal ex_heap
        "ex_master [] [(''User'', Some 0)]" 0 1]
    by (simp add: ex_doc_def ex_components_def ex_master_def ex_input_def
        hasDisputePrefix_def collides_def schemasEqual_def ex_marshal_def ex_heap_def
        ex_schemaRef_def zeroSchema_def)
  have 2: "mergeSpec ex_marshal ex_heap
     ((ex_doc [])\<lparr>t_Components := Some (ex_components [(''User'', Some 2)])\<rparr>) ex_input
     (ex_master [] [(''User'', Some 0)]) = Inr (ex_master [] [(''User'', Some 0)])"
    by (simp add: mergeSpec_def mergeComponents_def mergeSchema_def mergeFirstWins_def
        mergeTags_def ex_doc_def ex_components_def ex_master_def ex_input_def
        hasDisputePrefix_def schemasEqual_def ex_marshal_def ex_heap_def
        ex_schemaRef_def zeroSchema_def)
  from 1 2 show ?thesis by simp
qed

section \<open>Theorems: the path ordering\<close>

text \<open>The sorting loops exchange entries, so they keep the keys.\<close>

lemma mset_sortInner: "i < length xs \<Longrightarrow> mset (sortInner i j xs) = mset xs"
proof (induction i j xs rule: sortInner.induct)
  case (1 i j xs)
  show ?case
  proof (cases "j < length xs")
    case True
    let ?ys = "if xs ! i > xs ! j then xs[i := xs ! j, j := xs ! i] else xs"
    have len: "i < length ?ys" using "1.prems" by simp
    have "mset ?ys = mset xs" using True "1.prems" by (simp add: mset_swap)
    moreover have "mset (sortInner i (Suc j) ?ys) = mset ?ys"
      using "1.IH"[OF True len] .
    moreover have "sortInner i j xs = sortInner i (Suc j) ?ys"
      using True by (subst sortInner.simps) simp
    ultimately show ?thesis by simp
  next
    case False
    then show ?thesis by (subst sortInner.simps) simp
  qed
qed

lemma mset_sortOuter: "mset (sortOuter i xs) = mset xs"
proof (induction i xs rule: sortOuter.induct)
  case (1 i xs)
  show ?case
  proof (cases "i < length xs")
    case True
    have "sortOuter i xs = sortOuter (Suc i) (sortInner i (Suc i) xs)"
      using True by (subst sortOuter.simps) simp
    with "1.IH"[OF True] mset_sortInner[OF True] show ?thesis by simp
  next
    case False
    then show ?thesis by (subst sortOuter.simps) simp
  qed
qed

lemma set_sortOuter: "set (sortOuter i xs) = set xs"
  using mset_sortOuter[of i xs] by (metis set_mset_mset)

lemma set_priorityPaths: "set (priorityPaths pathsOrder allPaths) = set allPaths \<inter> set pathsOrder"
  by (auto simp: priorityPaths_def)

lemma set_notPriorityPaths:
  "set (notPriorityPaths pathsOrder allPaths) = set allPaths - set pathsOrder"
  by (auto simp: notPriorityPaths_def list_ex_iff)

lemma set_sortedPaths: "set (sortedPaths pathsOrder allPaths) = set allPaths"
  by (auto simp: sortedPaths_def set_priorityPaths set_notPriorityPaths set_sortOuter)

lemma fold_fill:
  "fold (\<lambda>path orderedPaths. orderedPaths(path := f path)) keys m
     = (\<lambda>k. if k \<in> set keys then f k else m k)"
  by (induction keys arbitrary: m) (auto simp: fun_eq_iff)

lemma sortPaths_map_of: "sortPaths pathsOrder paths = map_of paths"
proof
  fix k
  show "sortPaths pathsOrder paths k = map_of paths k"
  proof (cases "k \<in> fst ` set paths")
    case True
    then show ?thesis by (simp add: sortPaths_def fold_fill set_sortedPaths)
  next
    case False
    then have "map_of paths k = None" by (simp add: map_of_eq_None_iff)
    with False show ?thesis by (simp add: sortPaths_def fold_fill set_sortedPaths)
  qed
qed

text \<open>
  Claim C7. \<open>sortPaths\<close> builds the slice \<open>sortedPaths\<close> in the order the claim states
  (for the priority list \<^verbatim>\<open>/users\<close> and the keys \<^verbatim>\<open>/admin\<close>, \<^verbatim>\<open>/users\<close> it is
  \<^verbatim>\<open>/users\<close>, \<^verbatim>\<open>/admin\<close>), but then copies it into a Go map, which keeps no order.
  What it returns is the map it was given, whatever the priority list is: the same
  for the priority list \<^verbatim>\<open>/users\<close>, for the priority list \<^verbatim>\<open>/admin\<close> and for the
  empty one. The serialiser gets that map, so the order of the paths it writes cannot
  follow the configured priorities.
\<close>

theorem C7_priority_order_lost:
  "sortPaths pathsOrder paths = map_of paths \<and>
   sortPaths pathsOrder paths = sortPaths [] paths \<and>
   sortedPaths [''/users''] [''/admin'', ''/users''] = [''/users'', ''/admin''] \<and>
   sortPaths [''/users''] [(''/admin'', a), (''/users'', u)]
     = sortPaths [''/admin''] [(''/admin'', a), (''/users'', u)]"
proof -
  have "sortedPaths [''/users''] [''/admin'', ''/users''] = [''/users'', ''/admin'']"
    by (simp add: sortedPaths_def priorityPaths_def notPriorityPaths_def sortOuter.simps
        sortInner.simps)
  then show ?thesis by (simp add: sortPaths_map_of)
qed

section \<open>Theorems: the traversal of the schemas\<close>

text \<open>A loop over a list keeps an invariant that each step keeps.\<close>


lemma forEach_preserves:
  assumes "\<forall>x \<in> set xs. \<forall>h h'. I h \<longrightarrow> f x h = Some h' \<longrightarrow> I h'"
    and "I h" and "forEach f xs h = Some h'"
  shows "I h'"
  using assms
proof (induction xs arbitrary: h)
  case Nil
  from Nil.prems(2,3) show ?case by simp
next
  case (Cons x xs)
  from Cons.prems(3) obtain h1 where h1: "f x h = Some h1" "forEach f xs h1 = Some h'"
    by (cases "f x h") simp_all
  have step: "\<forall>h h'. I h \<longrightarrow> f x h = Some h' \<longrightarrow> I h'"
    using Cons.prems(1) by (meson list.set_intros(1))
  have rest: "\<forall>x \<in> set xs. \<forall>h h'. I h \<longrightarrow> f x h = Some h' \<longrightarrow> I h'"
    using Cons.prems(1) by (meson list.set_intros(2))
  from step Cons.prems(2) h1(1) have "I h1" by blast
  from Cons.IH[OF rest this h1(2)] show ?case .
qed

lemma forEach_returns:
  assumes "\<forall>x \<in> set xs. \<forall>h. I h \<longrightarrow> (\<exists>h'. f x h = Some h' \<and> I h')"
    and "I h"
  shows "\<exists>h'. forEach f xs h = Some h' \<and> I h'"
  using assms
proof (induction xs arbitrary: h)
  case Nil
  from Nil.prems(2) show ?case by simp
next
  case (Cons x xs)
  have step: "\<forall>h. I h \<longrightarrow> (\<exists>h'. f x h = Some h' \<and> I h')"
    using Cons.prems(1) by (meson list.set_intros(1))
  have rest: "\<forall>x \<in> set xs. \<forall>h. I h \<longrightarrow> (\<exists>h'. f x h = Some h' \<and> I h')"
    using Cons.prems(1) by (meson list.set_intros(2))
  from step Cons.prems(2) obtain h1 where h1: "f x h = Some h1" "I h1" by blast
  from Cons.IH[OF rest h1(2)] obtain h' where h': "forEach f xs h1 = Some h'" "I h'"
    by blast
  have "forEach f (x # xs) h = Some h'" by (simp add: h1(1) h'(1))
  with h'(2) show ?case by blast
qed

lemma forEach_fails:
  assumes "\<forall>x \<in> set xs. \<forall>h h'. I h \<longrightarrow> f x h = Some h' \<longrightarrow> I h'"
    and "x \<in> set xs" and "\<forall>h. I h \<longrightarrow> f x h = None" and "I h"
  shows "forEach f xs h = None"
  using assms
proof (induction xs arbitrary: h)
  case Nil
  from Nil.prems(2) show ?case by simp
next
  case (Cons y ys)
  have step: "\<forall>h h'. I h \<longrightarrow> f y h = Some h' \<longrightarrow> I h'"
    using Cons.prems(1) by (meson list.set_intros(1))
  have rest: "\<forall>x \<in> set ys. \<forall>h h'. I h \<longrightarrow> f x h = Some h' \<longrightarrow> I h'"
    using Cons.prems(1) by (meson list.set_intros(2))
  show ?case
  proof (cases "f y h")
    case None
    then show ?thesis by simp
  next
    case (Some h1)
    from step Cons.prems(4) Some have I1: "I h1" by blast
    from Cons.prems(3,4) have "f x h = None" by blast
    with Some have "y \<noteq> x" by auto
    with Cons.prems(2) have "x \<in> set ys" by simp
    from Cons.IH[OF rest this Cons.prems(3) I1] have "forEach f ys h1 = None" .
    with Some show ?thesis by simp
  qed
qed

lemma forEach_Cons_bind: "forEach f (x # xs) h = Option.bind (f x h) (forEach f xs)"
  by (cases "f x h") simp_all

lemma forEach_steps:
  "forEach (\<lambda>step. step) [s1, s2, s3, s4, s5, s6, s7] h =
     Option.bind (s1 h) (\<lambda>h. Option.bind (s2 h) (\<lambda>h. Option.bind (s3 h) (\<lambda>h.
       Option.bind (s4 h) (\<lambda>h. Option.bind (s5 h) (\<lambda>h. Option.bind (s6 h) s7)))))"
proof -
  have last: "forEach (\<lambda>step. step) [s7] = s7"
    by (rule ext) (simp split: option.splits)
  have "forEach (\<lambda>step. step) [s6, s7] = (\<lambda>h. Option.bind (s6 h) s7)"
    by (rule ext) (simp only: forEach_Cons_bind last)
  then have "forEach (\<lambda>step. step) [s5, s6, s7] = (\<lambda>h. Option.bind (s5 h) (\<lambda>h. Option.bind (s6 h) s7))"
    by (intro ext) (simp only: forEach_Cons_bind[of _ s5])
  then have "forEach (\<lambda>step. step) [s4, s5, s6, s7] =
      (\<lambda>h. Option.bind (s4 h) (\<lambda>h. Option.bind (s5 h) (\<lambda>h. Option.bind (s6 h) s7)))"
    by (intro ext) (simp only: forEach_Cons_bind[of _ s4])
  then have "forEach (\<lambda>step. step) [s3, s4, s5, s6, s7] =
      (\<lambda>h. Option.bind (s3 h) (\<lambda>h. Option.bind (s4 h) (\<lambda>h. Option.bind (s5 h)
         (\<lambda>h. Option.bind (s6 h) s7))))"
    by (intro ext) (simp only: forEach_Cons_bind[of _ s3])
  then have "forEach (\<lambda>step. step) [s2, s3, s4, s5, s6, s7] =
      (\<lambda>h. Option.bind (s2 h) (\<lambda>h. Option.bind (s3 h) (\<lambda>h. Option.bind (s4 h) (\<lambda>h.
         Option.bind (s5 h) (\<lambda>h. Option.bind (s6 h) s7)))))"
    by (intro ext) (simp only: forEach_Cons_bind[of _ s2])
  then show ?thesis by (simp only: forEach_Cons_bind[of _ s1])
qed

lemma updateNestedSchemas_steps:
  "updateNestedSchemas rec schema h = forEach (\<lambda>step. step) (nestedSteps rec schema) h"
  unfolding nestedSteps_def forEach_steps updateNestedSchemas_def ..

text \<open>The store after the reference string at \<open>a\<close> has been rewritten.\<close>

lemma updateSchemaRefRefs_Suc:
  "updateSchemaRefRefs (Suc n) renames (Some a) h =
     (case sr_Value (schemaRefs h a) of
        None \<Rightarrow> Some (h\<lparr>schemaRefs := (schemaRefs h)
                  (a := (schemaRefs h a)\<lparr>sr_Ref := rewriteRef renames (sr_Ref (schemaRefs h a))\<rparr>)\<rparr>)
      | Some v \<Rightarrow>
          updateNestedSchemas (updateSchemaRefRefs n renames) (schemas h v)
            (h\<lparr>schemaRefs := (schemaRefs h)
                  (a := (schemaRefs h a)\<lparr>sr_Ref := rewriteRef renames (sr_Ref (schemaRefs h a))\<rparr>)\<rparr>))"
  by (simp add: Let_def split: option.splits)

lemma updateSchemaRefRefs_nil: "updateSchemaRefRefs (Suc n) renames None h = Some h"
  by simp

declare updateSchemaRefRefs.simps(2) [simp del]

lemma samePointers_rewrite:
  "samePointers h0 h \<Longrightarrow>
   samePointers h0 (h\<lparr>schemaRefs := (schemaRefs h)(a := (schemaRefs h a)\<lparr>sr_Ref := r\<rparr>)\<rparr>)"
  by (simp add: samePointers_def)

lemma ball_steps:
  "P s1 \<Longrightarrow> P s2 \<Longrightarrow> P s3 \<Longrightarrow> P s4 \<Longrightarrow> P s5 \<Longrightarrow> P s6 \<Longrightarrow> P s7
   \<Longrightarrow> \<forall>s \<in> set [s1, s2, s3, s4, s5, s6, s7]. P s"
  by simp

lemma bex_steps:
  "P s1 \<or> P s2 \<or> P s3 \<or> P s4 \<or> P s5 \<or> P s6 \<or> P s7
   \<Longrightarrow> \<exists>s \<in> set [s1, s2, s3, s4, s5, s6, s7]. P s"
  by auto

lemma nestedSteps_preserve:
  assumes "\<forall>p h h'. I h \<longrightarrow> rec p h = Some h' \<longrightarrow> I h'"
  shows "\<forall>step \<in> set (nestedSteps rec schema). \<forall>h h'. I h \<longrightarrow> step h = Some h' \<longrightarrow> I h'"
proof -
  have each: "\<forall>h h'. I h \<longrightarrow> forEach rec xs h = Some h' \<longrightarrow> I h'" for xs
    using assms forEach_preserves[of xs I rec] by blast
  have one: "\<forall>h h'. I h \<longrightarrow> (if p \<noteq> None then rec p h else Some h) = Some h' \<longrightarrow> I h'" for p
  proof (cases "p = None")
    case True
    then show ?thesis by simp
  next
    case False
    have eq: "(if p \<noteq> None then rec p h else Some h) = rec p h" for h
      using False by simp
    show ?thesis unfolding eq using assms by blast
  qed
  show ?thesis
    unfolding nestedSteps_def
    by (rule ball_steps[where P = "\<lambda>step. \<forall>h h'. I h \<longrightarrow> step h = Some h' \<longrightarrow> I h'"])
      (rule each one)+
qed

lemma nestedSteps_return:
  assumes "\<forall>p \<in> set (schemaChildren schema). \<forall>h. I h \<longrightarrow> (\<exists>h'. rec p h = Some h' \<and> I h')"
  shows "\<forall>step \<in> set (nestedSteps rec schema). \<forall>h. I h \<longrightarrow> (\<exists>h'. step h = Some h' \<and> I h')"
proof -
  have each: "\<forall>h. I h \<longrightarrow> (\<exists>h'. forEach rec xs h = Some h' \<and> I h')"
    if "set xs \<subseteq> set (schemaChildren schema)" for xs
    using forEach_returns[of xs I rec] assms that by blast
  have one: "\<forall>h. I h \<longrightarrow> (\<exists>h'. (if p \<noteq> None then rec p h else Some h) = Some h' \<and> I h')"
    if "p \<in> set (schemaChildren schema)" for p
    using assms that by (cases p) auto
  have items: "s_Items schema \<in> set (schemaChildren schema)"
    and props: "set (map snd (s_Properties schema)) \<subseteq> set (schemaChildren schema)"
    and addl: "s_AdditionalProperties schema \<in> set (schemaChildren schema)"
    and allOf: "set (s_AllOf schema) \<subseteq> set (schemaChildren schema)"
    and oneOf: "set (s_OneOf schema) \<subseteq> set (schemaChildren schema)"
    and anyOf: "set (s_AnyOf schema) \<subseteq> set (schemaChildren schema)"
    and nt: "s_Not schema \<in> set (schemaChildren schema)"
    by (auto simp: schemaChildren_def)
  show ?thesis
    unfolding nestedSteps_def
    by (rule ball_steps[where P = "\<lambda>step. \<forall>h. I h \<longrightarrow> (\<exists>h'. step h = Some h' \<and> I h')"])
      (rule one[OF items] each[OF props] one[OF addl] each[OF allOf] each[OF oneOf]
        each[OF anyOf] one[OF nt])+
qed

lemma nestedSteps_fail:
  assumes pres: "\<forall>p h h'. I h \<longrightarrow> rec p h = Some h' \<longrightarrow> I h'"
    and child: "Some c \<in> set (schemaChildren schema)"
    and none: "\<forall>h. I h \<longrightarrow> rec (Some c) h = None"
  shows "\<exists>step \<in> set (nestedSteps rec schema). \<forall>h. I h \<longrightarrow> step h = None"
proof -
  have each: "\<forall>h. I h \<longrightarrow> forEach rec xs h = None" if "Some c \<in> set xs" for xs
    using forEach_fails[of xs I rec "Some c"] pres none that by blast
  have one: "\<forall>h. I h \<longrightarrow> (if p \<noteq> None then rec p h else Some h) = None" if "p = Some c" for p
    using none that by simp
  from child have
      "s_Items schema = Some c \<or> Some c \<in> set (map snd (s_Properties schema))
    \<or> s_AdditionalProperties schema = Some c \<or> Some c \<in> set (s_AllOf schema)
    \<or> Some c \<in> set (s_OneOf schema) \<or> Some c \<in> set (s_AnyOf schema)
    \<or> s_Not schema = Some c"
    by (auto simp: schemaChildren_def)
  then have "(\<forall>h. I h \<longrightarrow> (if s_Items schema \<noteq> None then rec (s_Items schema) h else Some h) = None)
    \<or> (\<forall>h. I h \<longrightarrow> forEach rec (map snd (s_Properties schema)) h = None)
    \<or> (\<forall>h. I h \<longrightarrow> (if s_AdditionalProperties schema \<noteq> None
           then rec (s_AdditionalProperties schema) h else Some h) = None)
    \<or> (\<forall>h. I h \<longrightarrow> forEach rec (s_AllOf schema) h = None)
    \<or> (\<forall>h. I h \<longrightarrow> forEach rec (s_OneOf schema) h = None)
    \<or> (\<forall>h. I h \<longrightarrow> forEach rec (s_AnyOf schema) h = None)
    \<or> (\<forall>h. I h \<longrightarrow> (if s_Not schema \<noteq> None then rec (s_Not schema) h else Some h) = None)"
    using one[of "s_Items schema"] each[of "map snd (s_Properties schema)"]
      one[of "s_AdditionalProperties schema"] each[of "s_AllOf schema"]
      each[of "s_OneOf schema"] each[of "s_AnyOf schema"] one[of "s_Not schema"]
    by blast
  then show ?thesis
    unfolding nestedSteps_def
    by (rule bex_steps[where P = "\<lambda>step. \<forall>h. I h \<longrightarrow> step h = None"])
qed

text \<open>The traversal writes reference strings only.\<close>

lemma updateSchemaRefRefs_samePointers:
  "samePointers h0 h \<Longrightarrow> updateSchemaRefRefs n renames p h = Some h' \<Longrightarrow> samePointers h0 h'"
proof (induction n arbitrary: p h h')
  case 0
  then show ?case by simp
next
  case (Suc n)
  show ?case
  proof (cases p)
    case None
    with Suc.prems show ?thesis by (simp add: updateSchemaRefRefs_nil)
  next
    case (Some a)
    let ?h1 = "h\<lparr>schemaRefs := (schemaRefs h)
        (a := (schemaRefs h a)\<lparr>sr_Ref := rewriteRef renames (sr_Ref (schemaRefs h a))\<rparr>)\<rparr>"
    have I1: "samePointers h0 ?h1" by (rule samePointers_rewrite[OF Suc.prems(1)])
    show ?thesis
    proof (cases "sr_Value (schemaRefs h a)")
      case None
      with Suc.prems(2) Some I1 show ?thesis by (simp add: updateSchemaRefRefs_Suc)
    next
      case (Some v)
      with Suc.prems(2) \<open>p = Some a\<close>
      have run: "forEach (\<lambda>step. step)
          (nestedSteps (updateSchemaRefRefs n renames) (schemas h v)) ?h1 = Some h'"
        by (simp add: updateSchemaRefRefs_Suc updateNestedSchemas_steps)
      have pres: "\<forall>p h h'. samePointers h0 h \<longrightarrow> updateSchemaRefRefs n renames p h = Some h'
          \<longrightarrow> samePointers h0 h'"
        using Suc.IH by blast
      from forEach_preserves[OF nestedSteps_preserve[OF pres] I1 run] show ?thesis .
    qed
  qed
qed

text \<open>A bound that serves one pointer serves finitely many.\<close>

lemma common_bound:
  assumes "\<forall>p \<in> set ps. \<exists>n. \<forall>m \<ge> n. Q p m"
  shows "\<exists>n. \<forall>p \<in> set ps. \<forall>m \<ge> n. Q p (m :: nat)"
  using assms
proof (induction ps)
  case Nil
  then show ?case by simp
next
  case (Cons p ps)
  from Cons.prems obtain n1 where n1: "\<forall>m \<ge> n1. Q p m" by auto
  from Cons.IH Cons.prems obtain n2 where n2: "\<forall>q \<in> set ps. \<forall>m \<ge> n2. Q q m" by auto
  have "\<forall>q \<in> set (p # ps). \<forall>m \<ge> max n1 n2. Q q m"
    using n1 n2 by auto
  then show ?case by blast
qed

lemma updateSchemaRefRefs_returns:
  assumes wf: "wf ((refEdges h0)\<inverse>)"
  shows "\<exists>n. \<forall>m \<ge> n. \<forall>h. samePointers h0 h \<longrightarrow>
           (\<exists>h'. updateSchemaRefRefs m renames (Some a) h = Some h' \<and> samePointers h0 h')"
  using wf
proof (induction a rule: wf_induct_rule)
  case (less a)
  let ?Q = "\<lambda>p m. \<forall>h. samePointers h0 h \<longrightarrow>
           (\<exists>h'. updateSchemaRefRefs m renames p h = Some h' \<and> samePointers h0 h')"
  show ?case
  proof (cases "sr_Value (schemaRefs h0 a)")
    case None
    have "?Q (Some a) m" if "m \<ge> 1" for m
    proof (intro allI impI)
      fix h assume I: "samePointers h0 h"
      from that obtain k where k: "m = Suc k" by (cases m) auto
      from I None have "sr_Value (schemaRefs h a) = None" by (simp add: samePointers_def)
      then show "\<exists>h'. updateSchemaRefRefs m renames (Some a) h = Some h' \<and> samePointers h0 h'"
        using samePointers_rewrite[OF I] by (simp add: k updateSchemaRefRefs_Suc)
    qed
    then show ?thesis by blast
  next
    case (Some v)
    let ?schema = "schemas h0 v"
    have "\<forall>p \<in> set (schemaChildren ?schema). \<exists>n. \<forall>m \<ge> n. ?Q p m"
    proof
      fix p assume p: "p \<in> set (schemaChildren ?schema)"
      show "\<exists>n. \<forall>m \<ge> n. ?Q p m"
      proof (cases p)
        case None
        have "?Q None m" if "m \<ge> 1" for m
        proof -
          from that obtain k where "m = Suc k" by (cases m) auto
          then show ?thesis by (simp add: updateSchemaRefRefs_nil)
        qed
        with None show ?thesis by blast
      next
        case (Some c)
        with p \<open>sr_Value (schemaRefs h0 a) = Some v\<close> have "(a, c) \<in> refEdges h0"
          by (auto simp: refEdges_def)
        then have "(c, a) \<in> (refEdges h0)\<inverse>" by simp
        from less.IH[OF this] Some show ?thesis by simp
      qed
    qed
    from common_bound[OF this] obtain n where
      n: "\<forall>p \<in> set (schemaChildren ?schema). \<forall>m \<ge> n. ?Q p m" by blast
    have "?Q (Some a) m" if "m \<ge> Suc n" for m
    proof (intro allI impI)
      fix h assume I: "samePointers h0 h"
      from that obtain k where k: "m = Suc k" "k \<ge> n" by (cases m) auto
      let ?h1 = "h\<lparr>schemaRefs := (schemaRefs h)
        (a := (schemaRefs h a)\<lparr>sr_Ref := rewriteRef renames (sr_Ref (schemaRefs h a))\<rparr>)\<rparr>"
      have I1: "samePointers h0 ?h1" by (rule samePointers_rewrite[OF I])
      from I Some have val: "sr_Value (schemaRefs h a) = Some v"
        and sch: "schemas h v = ?schema" by (simp_all add: samePointers_def)
      from n k(2) have rec: "\<forall>p \<in> set (schemaChildren ?schema). \<forall>h. samePointers h0 h \<longrightarrow>
          (\<exists>h'. updateSchemaRefRefs k renames p h = Some h' \<and> samePointers h0 h')"
        by blast
      from forEach_returns[OF nestedSteps_return[OF rec] I1]
      show "\<exists>h'. updateSchemaRefRefs m renames (Some a) h = Some h' \<and> samePointers h0 h'"
        by (simp add: k(1) updateSchemaRefRefs_Suc val sch updateNestedSchemas_steps)
    qed
    then show ?thesis by blast
  qed
qed

lemma updateSchemaRefRefs_diverges:
  "samePointers h0 h \<Longrightarrow> (a, c) \<in> (refEdges h0)\<^sup>* \<Longrightarrow> (c, c) \<in> (refEdges h0)\<^sup>+ \<Longrightarrow>
   updateSchemaRefRefs n renames (Some a) h = None"
proof (induction n arbitrary: a h)
  case 0
  then show ?case by simp
next
  case (Suc n)
  have "\<exists>b. (a, b) \<in> refEdges h0 \<and> (b, c) \<in> (refEdges h0)\<^sup>*"
  proof (cases "a = c")
    case True
    with tranclD[OF Suc.prems(3)] show ?thesis by blast
  next
    case False
    with Suc.prems(2) show ?thesis by (metis converse_rtranclE)
  qed
  then obtain b where b: "(a, b) \<in> refEdges h0" "(b, c) \<in> (refEdges h0)\<^sup>*" by blast
  from b(1) obtain v where v: "sr_Value (schemaRefs h0 a) = Some v"
    "Some b \<in> set (schemaChildren (schemas h0 v))" by (auto simp: refEdges_def)
  let ?h1 = "h\<lparr>schemaRefs := (schemaRefs h)
        (a := (schemaRefs h a)\<lparr>sr_Ref := rewriteRef renames (sr_Ref (schemaRefs h a))\<rparr>)\<rparr>"
  have I1: "samePointers h0 ?h1" by (rule samePointers_rewrite[OF Suc.prems(1)])
  from Suc.prems(1) v(1) have val: "sr_Value (schemaRefs h a) = Some v"
    and sch: "schemas h v = schemas h0 v" by (simp_all add: samePointers_def)
  have pres: "\<forall>p h h'. samePointers h0 h \<longrightarrow> updateSchemaRefRefs n renames p h = Some h'
          \<longrightarrow> samePointers h0 h'"
    using updateSchemaRefRefs_samePointers by blast
  have none: "\<forall>h. samePointers h0 h \<longrightarrow> updateSchemaRefRefs n renames (Some b) h = None"
    using Suc.IH[OF _ b(2) Suc.prems(3)] by blast
  from nestedSteps_fail[OF pres v(2) none] obtain step where
    step: "step \<in> set (nestedSteps (updateSchemaRefRefs n renames) (schemas h0 v))"
      "\<forall>h. samePointers h0 h \<longrightarrow> step h = None" by blast
  have "forEach (\<lambda>step. step) (nestedSteps (updateSchemaRefRefs n renames) (schemas h0 v)) ?h1
      = None"
    by (rule forEach_fails[where f = "\<lambda>step. step" and I = "samePointers h0" and x = step,
          OF nestedSteps_preserve[OF pres] step(1) step(2) I1])
  then show ?case
    by (simp add: updateSchemaRefRefs_Suc val sch updateNestedSchemas_steps)
qed

text \<open>
  Claim C9. The first argument of \<open>updateSchemaRefRefs\<close> bounds the depth of its
  recursion, and the result is \<open>None\<close> when the traversal needs more. \<open>refEdges\<close> is the
  graph of the schema objects of a store: an edge goes from a schema reference to each
  schema reference that its schema holds in \<^verbatim>\<open>Items\<close>, \<^verbatim>\<open>Properties\<close>,
  \<^verbatim>\<open>AdditionalProperties\<close>, \<^verbatim>\<open>AllOf\<close>, \<^verbatim>\<open>OneOf\<close>, \<^verbatim>\<open>AnyOf\<close> or \<^verbatim>\<open>Not\<close>.

  \<^item> When the graph is finite and has no cycle, the traversal returns from every
    pointer: some depth suffices, and so does every greater one. The store it returns
    has the pointers of the store it was given.
  \<^item> When the traversal starts at a schema reference from which a cycle of the graph can
    be reached, it returns for no depth: the source has no record of the objects it
    has visited and no bound, so it does not terminate.
\<close>

theorem C9_traversal_terminates:
  "(finite (refEdges h) \<longrightarrow> acyclic (refEdges h) \<longrightarrow>
      (\<exists>n. \<forall>m \<ge> n. \<exists>h'. updateSchemaRefRefs m renames p h = Some h' \<and> samePointers h h')) \<and>
   ((a, c) \<in> (refEdges h)\<^sup>* \<longrightarrow> (c, c) \<in> (refEdges h)\<^sup>+ \<longrightarrow>
      (\<forall>n. updateSchemaRefRefs n renames (Some a) h = None))"
proof (intro conjI impI)
  assume fin: "finite (refEdges h)" and acyc: "acyclic (refEdges h)"
  have same: "samePointers h h" by (simp add: samePointers_def)
  show "\<exists>n. \<forall>m \<ge> n. \<exists>h'. updateSchemaRefRefs m renames p h = Some h' \<and> samePointers h h'"
  proof (cases p)
    case None
    have "\<exists>h'. updateSchemaRefRefs m renames None h = Some h' \<and> samePointers h h'"
      if "m \<ge> 1" for m
    proof -
      from that obtain k where "m = Suc k" by (cases m) auto
      with same show ?thesis by (simp add: updateSchemaRefRefs_nil)
    qed
    with None show ?thesis by blast
  next
    case (Some b)
    from fin acyc have "wf ((refEdges h)\<inverse>)" by (rule finite_acyclic_wf_converse)
    from updateSchemaRefRefs_returns[OF this, of renames b] obtain n where
      n: "\<forall>m \<ge> n. \<forall>h1. samePointers h h1 \<longrightarrow>
           (\<exists>h'. updateSchemaRefRefs m renames (Some b) h1 = Some h' \<and> samePointers h h')"
      by blast
    with same have "\<forall>m \<ge> n. \<exists>h'. updateSchemaRefRefs m renames (Some b) h = Some h' \<and>
        samePointers h h'" by blast
    with Some show ?thesis by blast
  qed
next
  assume "(a, c) \<in> (refEdges h)\<^sup>*" and "(c, c) \<in> (refEdges h)\<^sup>+"
  moreover have "samePointers h h" by (simp add: samePointers_def)
  ultimately show "\<forall>n. updateSchemaRefRefs n renames (Some a) h = None"
    using updateSchemaRefRefs_diverges by blast
qed

text \<open>
  The theorem at the two stores of the examples. In the store without a cycle the
  traversal returns with depth 2, and the reference to \<^verbatim>\<open>B\<close> is rewritten. In the store
  with the cycle it returns for no depth.
\<close>

theorem C9_traversal_terminates_witness:
  "finite (refEdges ex_nested) \<and> acyclic (refEdges ex_nested) \<and>
   (\<exists>n. \<forall>m \<ge> n. \<exists>h'. updateSchemaRefRefs m ex_renames (Some 0) ex_nested = Some h' \<and>
      samePointers ex_nested h') \<and>
   updateSchemaRefRefs 2 ex_renames (Some 0) ex_nested
     = Some (ex_nested\<lparr>schemaRefs := (schemaRefs ex_nested)
               (1 := ex_schemaRef ''#/components/schemas/AB'' None)\<rparr>) \<and>
   (0, 1) \<in> (refEdges ex_cyclic)\<^sup>* \<and> (1, 1) \<in> (refEdges ex_cyclic)\<^sup>+ \<and>
   (\<forall>n. updateSchemaRefRefs n ex_renames (Some 0) ex_cyclic = None)"
proof -
  have edges: "refEdges ex_nested = {(0, 1), (0, 2)}"
    by (auto simp: refEdges_def ex_nested_def ex_schemaRef_def schemaChildren_def
        zeroSchema_def split: if_splits)
  have fin: "finite (refEdges ex_nested)" by (simp add: edges)
  have "acyclic ({} :: (addr \<times> addr) set)" by (simp add: acyclic_def)
  then have acyc: "acyclic (refEdges ex_nested)"
    by (simp add: edges acyclic_insert rtrancl_insert)
  have run: "updateSchemaRefRefs 2 ex_renames (Some 0) ex_nested
     = Some (ex_nested\<lparr>schemaRefs := (schemaRefs ex_nested)
               (1 := ex_schemaRef ''#/components/schemas/AB'' None)\<rparr>)"
    by (simp add: numeral_2_eq_2 updateSchemaRefRefs_Suc updateNestedSchemas_def
        ex_nested_def ex_schemaRef_def ex_renames_def zeroSchema_def rewriteRef_def
        fun_eq_iff)
  have e01: "(0, 1) \<in> refEdges ex_cyclic" and e11: "(1, 1) \<in> refEdges ex_cyclic"
    by (simp_all add: refEdges_def ex_cyclic_def ex_schemaRef_def schemaChildren_def
        zeroSchema_def)
  have r01: "(0, 1) \<in> (refEdges ex_cyclic)\<^sup>*" using e01 by (rule r_into_rtrancl)
  have r11: "(1, 1) \<in> (refEdges ex_cyclic)\<^sup>+" using e11 by (rule r_into_trancl)
  from C9_traversal_terminates[of ex_nested ex_renames "Some 0" 0 1]
    C9_traversal_terminates[of ex_cyclic ex_renames "Some 0" 0 1]
    fin acyc run r01 r11
  show ?thesis by simp
qed

section \<open>Theorems: the conflict resolver\<close>

text \<open>
  Claim C2. \<open>applyDisputePrefix\<close> with the prefix \<^verbatim>\<open>A\<close> on the document with the schemas
  \<^verbatim>\<open>B\<close>, \<^verbatim>\<open>AB\<close>, \<^verbatim>\<open>Item\<close> and \<^verbatim>\<open>List\<close>, for every depth from 3 on and for the schemas in
  this order and in the opposite one. The components are renamed to \<^verbatim>\<open>AB\<close>, \<^verbatim>\<open>AAB\<close>,
  \<^verbatim>\<open>AItem\<close> and \<^verbatim>\<open>AList\<close>. The property \<^verbatim>\<open>x\<close> of \<^verbatim>\<open>Item\<close> referred to \<^verbatim>\<open>B\<close>, which is now
  \<^verbatim>\<open>AB\<close>; the traversal reaches the property twice, from \<^verbatim>\<open>Item\<close> and from the items of
  \<^verbatim>\<open>List\<close>, and rewrites its reference string twice, with no record of the objects it
  has visited: the first time to \<^verbatim>\<open>AB\<close>, the second time, \<^verbatim>\<open>AB\<close> being an old name too, to
  \<^verbatim>\<open>AAB\<close>. The reference ends at the schema that was \<^verbatim>\<open>AB\<close>, not at the one that was \<^verbatim>\<open>B\<close>.
\<close>

theorem C2_reference_rewritten_twice:
  "sr_Ref (schemaRefs ex_shared 3) = ''#/components/schemas/B'' \<and>
   applyDisputePrefix (Suc (Suc (Suc n)))
       (ex_catalog [(''B'', Some 0), (''AB'', Some 1), (''Item'', Some 2), (''List'', Some 4)])
       ''A'' ex_shared
     = Some (ex_catalog
               [(''AB'', Some 0), (''AAB'', Some 1), (''AItem'', Some 2), (''AList'', Some 4)],
             ex_shared\<lparr>schemaRefs := (schemaRefs ex_shared)
               (3 := ex_schemaRef ''#/components/schemas/AAB'' (Some 0),
                5 := ex_schemaRef ''#/components/schemas/AItem'' (Some 2))\<rparr>) \<and>
   applyDisputePrefix (Suc (Suc (Suc n)))
       (ex_catalog [(''List'', Some 4), (''Item'', Some 2), (''AB'', Some 1), (''B'', Some 0)])
       ''A'' ex_shared
     = Some (ex_catalog
               [(''AList'', Some 4), (''AItem'', Some 2), (''AAB'', Some 1), (''AB'', Some 0)],
             ex_shared\<lparr>schemaRefs := (schemaRefs ex_shared)
               (3 := ex_schemaRef ''#/components/schemas/AAB'' (Some 0),
                5 := ex_schemaRef ''#/components/schemas/AItem'' (Some 2))\<rparr>)"
proof -
  let ?result = "ex_shared\<lparr>schemaRefs := (schemaRefs ex_shared)
               (3 := ex_schemaRef ''#/components/schemas/AAB'' (Some 0),
                5 := ex_schemaRef ''#/components/schemas/AItem'' (Some 2))\<rparr>"
  have 0: "sr_Ref (schemaRefs ex_shared 3) = ''#/components/schemas/B''"
    by (simp add: ex_shared_def ex_schemaRef_def)
  have rn1: "renameSchemas ''A''
      [(''B'', b), (''AB'', ab), (''Item'', item), (''List'', lst)] []
    = ([(''AB'', b), (''AAB'', ab), (''AItem'', item), (''AList'', lst)],
       [(''#/components/schemas/B'', ''#/components/schemas/AB''),
        (''#/definitions/B'', ''#/components/schemas/AB''),
        (''#/components/schemas/AB'', ''#/components/schemas/AAB''),
        (''#/definitions/AB'', ''#/components/schemas/AAB''),
        (''#/components/schemas/Item'', ''#/components/schemas/AItem''),
        (''#/definitions/Item'', ''#/components/schemas/AItem''),
        (''#/components/schemas/List'', ''#/components/schemas/AList''),
        (''#/definitions/List'', ''#/components/schemas/AList'')])"
    for b ab item lst :: "addr option"
    by (simp add: renameSchemas_def Let_def)
  have rn2: "renameSchemas ''A''
      [(''List'', lst), (''Item'', item), (''AB'', ab), (''B'', b)] []
    = ([(''AList'', lst), (''AItem'', item), (''AAB'', ab), (''AB'', b)],
       [(''#/components/schemas/List'', ''#/components/schemas/AList''),
        (''#/definitions/List'', ''#/components/schemas/AList''),
        (''#/components/schemas/Item'', ''#/components/schemas/AItem''),
        (''#/definitions/Item'', ''#/components/schemas/AItem''),
        (''#/components/schemas/AB'', ''#/components/schemas/AAB''),
        (''#/definitions/AB'', ''#/components/schemas/AAB''),
        (''#/components/schemas/B'', ''#/components/schemas/AB''),
        (''#/definitions/B'', ''#/components/schemas/AB'')])"
    for b ab item lst :: "addr option"
    by (simp add: renameSchemas_def Let_def)
  have none: "renameComponents kind ''A'' [] renames = ([], renames)" for kind renames
    by (simp add: renameComponents_def)
  have 1: "applyDisputePrefix (Suc (Suc (Suc n)))
       (ex_catalog [(''B'', Some 0), (''AB'', Some 1), (''Item'', Some 2), (''List'', Some 4)])
       ''A'' ex_shared
     = Some (ex_catalog
               [(''AB'', Some 0), (''AAB'', Some 1), (''AItem'', Some 2), (''AList'', Some 4)],
             ?result)"
    by (simp add: applyDisputePrefix_def ex_catalog_def ex_components_def rn1 none Let_def
        updateRefs_def updateComponentsRefs_def updateSchemaRefRefs_Suc
        updateNestedSchemas_def rewriteRef_def ex_shared_def ex_schemaRef_def zeroSchema_def
        fun_eq_iff)
  have 2: "applyDisputePrefix (Suc (Suc (Suc n)))
       (ex_catalog [(''List'', Some 4), (''Item'', Some 2), (''AB'', Some 1), (''B'', Some 0)])
       ''A'' ex_shared
     = Some (ex_catalog
               [(''AList'', Some 4), (''AItem'', Some 2), (''AAB'', Some 1), (''AB'', Some 0)],
             ?result)"
    by (simp add: applyDisputePrefix_def ex_catalog_def ex_components_def rn2 none Let_def
        updateRefs_def updateComponentsRefs_def updateSchemaRefRefs_Suc
        updateNestedSchemas_def rewriteRef_def ex_shared_def ex_schemaRef_def zeroSchema_def
        fun_eq_iff)
  from 0 1 2 show ?thesis by (intro conjI)
qed

end
